theory Spec2Isabelle
  imports Complex_Main "HOL-Library.Word"
begin

unbundle bit_operations_syntax

section \<open>The BDF font parser of bdf.go\<close>

text \<open>
  A shallow embedding of \<^verbatim>\<open>src/bdf.go\<close> (the first, current version of the file:
  the one with \<^verbatim>\<open>parseGlobalsAndProperties\<close>, \<^verbatim>\<open>charToRune\<close>, \<^verbatim>\<open>findCharmap\<close>,
  \<^verbatim>\<open>bitAt\<close> and \<^verbatim>\<open>lookup\<close>).

  Conventions.
  \<^item> Go's \<^verbatim>\<open>int\<close> is the 64-bit \<^verbatim>\<open>int\<close> of amd64/arm64. It is modelled as \<open>int\<close>;
    \<^verbatim>\<open>strconv.Atoi\<close> only delivers values of the 64-bit range, and \<open>wrap64\<close> is written
    out at the arithmetic whose result can leave it (\<^verbatim>\<open>w*h\<close>, \<^verbatim>\<open>lx + Dx()\<close>, \<^verbatim>\<open>-Ascent\<close>).
    The index arithmetic of the bitmap loop needs no wrap: an index is checked against the
    length of a slice before the next, larger one is formed.
  \<^item> \<^verbatim>\<open>byte\<close> is \<open>8 word\<close>, \<^verbatim>\<open>rune\<close> (\<^verbatim>\<open>int32\<close>) and \<^verbatim>\<open>fixed.Int26_6\<close> (\<^verbatim>\<open>int32\<close>) are
    \<open>32 word\<close>, read with \<open>sint\<close>; \<^verbatim>\<open>uint32\<close> is \<open>32 word\<close> read with \<open>unat\<close>.
  \<^item> A Go \<^verbatim>\<open>string\<close> is a sequence of bytes: \<open>string\<close>.
  \<^item> A call returns a value (\<open>Return\<close>), returns a non-nil \<^verbatim>\<open>error\<close> (\<open>Fail\<close>), or
    panics at run time (\<open>Panic\<close>): an index out of range, a nil dereference, a length
    given to \<^verbatim>\<open>make\<close> that is negative or asks for more than the runtime can address
    (\<open>maxAlloc\<close>), a division by zero, a negative shift count. Below \<open>maxAlloc\<close> an
    allocation is taken to succeed: a program that the machine cannot give the memory it
    asks for is stopped by a fatal error of the runtime, which is outside this model.
  \<^item> A \<^verbatim>\<open>Face\<close> holds nothing but its \<^verbatim>\<open>*Font\<close>: a method of the face takes the font.
  \<^item> A \<^verbatim>\<open>*Character\<close> stored in \<^verbatim>\<open>CharMap\<close> is \<^verbatim>\<open>&f.Characters[char]\<close>: the index of
    the slot in \<^verbatim>\<open>f.Characters\<close>, so that a later write to the slot is seen through the map,
    as it is through the pointer.
\<close>

type_synonym byte = "8 word"
type_synonym rune = "32 word"
type_synonym uint32 = "32 word"

definition wrap64 :: "int \<Rightarrow> int" where
  "wrap64 x = signed_take_bit 63 x"

text \<open>
  \<^verbatim>\<open>runtime.makeslice\<close> panics with \<^verbatim>\<open>len out of range\<close> when the length is negative or
  the slice would hold more than \<^verbatim>\<open>maxAlloc\<close> bytes, which is 2 to the 48 on a 64-bit
  Linux. A \<^verbatim>\<open>Character\<close> takes 64 bytes there (a string, a rune, two ints, a pointer, two
  ints).
\<close>

definition maxAlloc :: int where
  "maxAlloc = 2 ^ 48"

definition sizeof_Character :: int where
  "sizeof_Character = 64"

definition makeslice_panics :: "int \<Rightarrow> int \<Rightarrow> bool" where
  "makeslice_panics elemsize len = (len < 0 \<or> maxAlloc < elemsize * len)"

subsection \<open>Outcomes of a call\<close>

datatype numerr = ErrSyntax | ErrRange

text \<open>\<^verbatim>\<open>*strconv.NumError{Func, Num, Err}\<close>, and the two errors of \<^verbatim>\<open>encoding/hex\<close>.\<close>

datatype error =
    NumError string string numerr
  | InvalidByteError char
  | ErrLength

datatype panic =
    IndexOutOfRange
  | NilDereference
  | MakeSliceLenOutOfRange
  | DivideByZero
  | NegativeShift

datatype 'a result = Return 'a | Fail error | Panic panic

fun bind :: "'a result \<Rightarrow> ('a \<Rightarrow> 'b result) \<Rightarrow> 'b result" where
  "bind (Return x) k = k x"
| "bind (Fail e) k = Fail e"
| "bind (Panic p) k = Panic p"

subsection \<open>Library functions the parser calls\<close>

text \<open>
  \<^verbatim>\<open>strconv.Atoi\<close> (base 10, 64 bits): an optional sign, then at least one decimal digit.
  \<^verbatim>\<open>ParseUint\<close> reads the digits from the left and stops at the first byte that is not a
  digit (\<^verbatim>\<open>ErrSyntax\<close>) or at the first overflow of 64 unsigned bits (\<^verbatim>\<open>ErrRange\<close>).
  On a syntax error Atoi returns 0, on a range error the nearest bound, both with the error.
\<close>

definition isDigit :: "char \<Rightarrow> bool" where
  "isDigit c = (48 \<le> (of_char c :: nat) \<and> (of_char c :: nat) \<le> 57)"

fun ParseUint_loop :: "int \<Rightarrow> string \<Rightarrow> numerr + int" where
  "ParseUint_loop n [] = Inr n"
| "ParseUint_loop n (c # cs) =
     (if \<not> isDigit c then Inl ErrSyntax
      else if n \<ge> (2 ^ 64 - 1) div 10 + 1 then Inl ErrRange
      else if n * 10 + (of_char c - 48) > 2 ^ 64 - 1 then Inl ErrRange
      else ParseUint_loop (n * 10 + (of_char c - 48)) cs)"

definition ParseUint :: "string \<Rightarrow> numerr + int" where
  "ParseUint s = (if s = [] then Inl ErrSyntax else ParseUint_loop 0 s)"

definition Atoi :: "string \<Rightarrow> int \<times> error option" where
  "Atoi s =
     (if s = [] then (0, Some (NumError ''Atoi'' s ErrSyntax))
      else
        let neg = (hd s = CHR ''-'');
            t = (if hd s = CHR ''+'' \<or> hd s = CHR ''-'' then tl s else s)
        in case ParseUint t of
             Inl ErrSyntax \<Rightarrow> (0, Some (NumError ''Atoi'' s ErrSyntax))
           | Inl ErrRange \<Rightarrow>
               (if neg then - (2 ^ 63) else 2 ^ 63 - 1, Some (NumError ''Atoi'' s ErrRange))
           | Inr un \<Rightarrow>
               if \<not> neg \<and> un \<ge> 2 ^ 63 then (2 ^ 63 - 1, Some (NumError ''Atoi'' s ErrRange))
               else if neg \<and> un > 2 ^ 63 then (- (2 ^ 63), Some (NumError ''Atoi'' s ErrRange))
               else (if neg then - un else un, None))"

text \<open>The pattern \<^verbatim>\<open>x, err := strconv.Atoi(s); if err != nil { return err }\<close>.\<close>

definition atoi :: "string \<Rightarrow> int result" where
  "atoi s = (case Atoi s of (n, None) \<Rightarrow> Return n | (n, Some e) \<Rightarrow> Fail e)"

text \<open>\<^verbatim>\<open>strings.Split(s, " ")\<close>: the fields between single spaces; never empty.\<close>

fun Split_from :: "string \<Rightarrow> string \<Rightarrow> string list" where
  "Split_from cur [] = [cur]"
| "Split_from cur (c # cs) =
     (if c = CHR '' '' then cur # Split_from [] cs else Split_from (cur @ [c]) cs)"

definition Split :: "string \<Rightarrow> string list" where
  "Split s = Split_from [] s"

text \<open>\<^verbatim>\<open>components[i]\<close>: a run-time panic when the line has too few fields.\<close>

definition component :: "string list \<Rightarrow> nat \<Rightarrow> string result" where
  "component components i =
     (if i < length components then Return (components ! i) else Panic IndexOutOfRange)"

text \<open>
  \<^verbatim>\<open>bufio.Scanner\<close> with the default \<^verbatim>\<open>ScanLines\<close>: the input is cut at each newline, one
  trailing carriage return is dropped from each line, and a last line without newline is
  delivered when it is not empty. This is what the scanner delivers as long as every line
  fits its buffer of \<^verbatim>\<open>MaxScanTokenSize\<close> = 64 KiB, newline included: the sources that
  \<open>short_lines\<close> describes. At a longer line the scanner stops with \<^verbatim>\<open>ErrTooLong\<close>, which
  \<^verbatim>\<open>Parse\<close> never reads; the statements that depend on the lines read after it are made
  for sources with short lines.
\<close>

definition dropCR :: "string \<Rightarrow> string" where
  "dropCR l = (if l \<noteq> [] \<and> last l = CHR 0x0D then butlast l else l)"

fun ScanLines_from :: "string \<Rightarrow> string \<Rightarrow> string list" where
  "ScanLines_from cur [] = (if cur = [] then [] else [dropCR cur])"
| "ScanLines_from cur (c # cs) =
     (if c = CHR 0x0A then dropCR cur # ScanLines_from [] cs
      else ScanLines_from (cur @ [c]) cs)"

definition ScanLines :: "string \<Rightarrow> string list" where
  "ScanLines data = ScanLines_from [] data"

definition MaxScanTokenSize :: nat where
  "MaxScanTokenSize = 64 * 1024"

text \<open>
  Every line of the source, with the carriage return that \<open>dropCR\<close> may have taken from it
  and with its newline, fits the buffer of the scanner.
\<close>

definition short_lines :: "string \<Rightarrow> bool" where
  "short_lines data = list_all (\<lambda>l. length l + 2 \<le> MaxScanTokenSize) (ScanLines data)"

text \<open>
  \<^verbatim>\<open>hex.DecodeString\<close>: two hexadecimal digits a byte; \<^verbatim>\<open>InvalidByteError\<close> at the first
  byte that is no digit, \<^verbatim>\<open>ErrLength\<close> for an odd number of digits.
\<close>

definition fromHexChar :: "char \<Rightarrow> byte option" where
  "fromHexChar c =
     (let n = (of_char c :: nat) in
      if 48 \<le> n \<and> n \<le> 57 then Some (of_nat (n - 48))
      else if 97 \<le> n \<and> n \<le> 102 then Some (of_nat (n - 97 + 10))
      else if 65 \<le> n \<and> n \<le> 70 then Some (of_nat (n - 65 + 10))
      else None)"

fun DecodeString :: "string \<Rightarrow> error + byte list" where
  "DecodeString [] = Inr []"
| "DecodeString [p] =
     (case fromHexChar p of None \<Rightarrow> Inl (InvalidByteError p) | Some a \<Rightarrow> Inl ErrLength)"
| "DecodeString (p # q # cs) =
     (case fromHexChar p of
        None \<Rightarrow> Inl (InvalidByteError p)
      | Some a \<Rightarrow>
          (case fromHexChar q of
             None \<Rightarrow> Inl (InvalidByteError q)
           | Some b \<Rightarrow>
               (case DecodeString cs of
                  Inl e \<Rightarrow> Inl e
                | Inr bs \<Rightarrow> Inr ((push_bit 4 a OR b) # bs))))"

text \<open>
  \<^verbatim>\<open>strings.ToLower\<close> and \<^verbatim>\<open>strings.TrimSpace\<close> on ASCII strings (\<open>isASCII\<close>), which is what
  a BDF header carries: the letters A to Z are lowered, and the six ASCII white-space
  bytes are trimmed from both ends. On a string with a byte above 0x7F Go decodes UTF-8
  and follows the Unicode tables (U+0130 is lowered to \<^verbatim>\<open>i\<close>, U+00A0 is white space), which
  these definitions do not: the statements about the table that an identifier selects
  are made for ASCII identifiers.
\<close>

definition isASCII :: "string \<Rightarrow> bool" where
  "isASCII s = list_all (\<lambda>c. (of_char c :: nat) < 0x80) s"

definition toLower :: "char \<Rightarrow> char" where
  "toLower c =
     (if 65 \<le> (of_char c :: nat) \<and> (of_char c :: nat) \<le> 90
      then char_of ((of_char c :: nat) + 32) else c)"

definition ToLower :: "string \<Rightarrow> string" where
  "ToLower s = map toLower s"

definition isSpace :: "char \<Rightarrow> bool" where
  "isSpace c = ((of_char c :: nat) \<in> {9, 10, 11, 12, 13, 32})"

definition TrimSpace :: "string \<Rightarrow> string" where
  "TrimSpace s = rev (dropWhile isSpace (rev (dropWhile isSpace s)))"

subsection \<open>The charmap resolver\<close>

text \<open>
  The four tables of \<^verbatim>\<open>golang.org/x/text/encoding/charmap\<close> that \<^verbatim>\<open>findCharmap\<close> knows.
  \<^verbatim>\<open>DecodeByte\<close> is total on bytes. ISO 8859-1 is the first 256 code points of Unicode,
  and part 9 differs from it at six bytes. The tables of parts 2 and 15 agree with
  ASCII below 0x80 and give U+FFFD, the replacement character, for the bytes 0x80 to 0x9F
  (the package leaves the C1 controls of these two tables unmapped); from 0xA0 on, part 15
  differs from part 1 at eight bytes and part 2 has its own letters.
\<close>

datatype charmap = ISO8859_1 | ISO8859_2 | ISO8859_9 | ISO8859_15

definition iso8859_2_high :: "rune list" where
  "iso8859_2_high =
    [0x00A0, 0x0104, 0x02D8, 0x0141, 0x00A4, 0x013D, 0x015A, 0x00A7,
     0x00A8, 0x0160, 0x015E, 0x0164, 0x0179, 0x00AD, 0x017D, 0x017B,
     0x00B0, 0x0105, 0x02DB, 0x0142, 0x00B4, 0x013E, 0x015B, 0x02C7,
     0x00B8, 0x0161, 0x015F, 0x0165, 0x017A, 0x02DD, 0x017E, 0x017C,
     0x0154, 0x00C1, 0x00C2, 0x0102, 0x00C4, 0x0139, 0x0106, 0x00C7,
     0x010C, 0x00C9, 0x0118, 0x00CB, 0x011A, 0x00CD, 0x00CE, 0x010E,
     0x0110, 0x0143, 0x0147, 0x00D3, 0x00D4, 0x0150, 0x00D6, 0x00D7,
     0x0158, 0x016E, 0x00DA, 0x0170, 0x00DC, 0x00DD, 0x0162, 0x00DF,
     0x0155, 0x00E1, 0x00E2, 0x0103, 0x00E4, 0x013A, 0x0107, 0x00E7,
     0x010D, 0x00E9, 0x0119, 0x00EB, 0x011B, 0x00ED, 0x00EE, 0x010F,
     0x0111, 0x0144, 0x0148, 0x00F3, 0x00F4, 0x0151, 0x00F6, 0x00F7,
     0x0159, 0x016F, 0x00FA, 0x0171, 0x00FC, 0x00FD, 0x0163, 0x02D9]"

definition DecodeByte :: "charmap \<Rightarrow> byte \<Rightarrow> rune" where
  "DecodeByte m b =
     (case m of
        ISO8859_1 \<Rightarrow> ucast b
      | ISO8859_2 \<Rightarrow>
          (if unat b < 0x80 then ucast b
           else if unat b < 0xA0 then 0xFFFD
           else iso8859_2_high ! (unat b - 0xA0))
      | ISO8859_9 \<Rightarrow>
          (if b = 0xD0 then 0x011E else if b = 0xDD then 0x0130
           else if b = 0xDE then 0x015E else if b = 0xF0 then 0x011F
           else if b = 0xFD then 0x0131 else if b = 0xFE then 0x015F
           else ucast b)
      | ISO8859_15 \<Rightarrow>
          (if 0x80 \<le> unat b \<and> unat b < 0xA0 then 0xFFFD
           else if b = 0xA4 then 0x20AC else if b = 0xA6 then 0x0160
           else if b = 0xA8 then 0x0161 else if b = 0xB4 then 0x017D
           else if b = 0xB8 then 0x017E else if b = 0xBC then 0x0152
           else if b = 0xBD then 0x0153 else if b = 0xBE then 0x0178
           else ucast b))"

definition knownMaps :: "(string \<times> charmap) list" where
  "knownMaps =
     [(''iso8859-1'', ISO8859_1),
      (''iso8859-2'', ISO8859_2),
      (''iso8859-9'', ISO8859_9),
      (''iso8859-15'', ISO8859_15)]"

definition findCharmap :: "string \<Rightarrow> charmap option" where
  "findCharmap requested = map_of knownMaps (TrimSpace (ToLower requested))"

text \<open>\<^verbatim>\<open>byte(char)\<close> keeps the low 8 bits of the int, \<^verbatim>\<open>rune(char)\<close> the low 32.\<close>

definition charToRune :: "string \<Rightarrow> int \<Rightarrow> rune" where
  "charToRune encoding char =
     (case findCharmap encoding of
        Some charMap \<Rightarrow> DecodeByte charMap (word_of_int char)
      | None \<Rightarrow> word_of_int char)"

subsection \<open>The data model\<close>

text \<open>
  \<^verbatim>\<open>image.Alpha\<close> as the parser builds it: \<^verbatim>\<open>Rect.Min\<close> is the zero point.
  The fields \<^verbatim>\<open>Min\<close> and \<^verbatim>\<open>Max\<close> of \<^verbatim>\<open>image.Rectangle\<close> are \<open>RMin\<close> and \<open>RMax\<close> here, and
  the fields \<^verbatim>\<open>Name\<close> and \<^verbatim>\<open>Encoding\<close> of \<^verbatim>\<open>Font\<close> are \<open>FName\<close> and \<open>FEncoding\<close>.
\<close>

record Point =
  X :: int
  Y :: int

record Rectangle =
  RMin :: Point
  RMax :: Point

record image_Alpha =
  Pix :: "byte list"
  Stride :: int
  Rect :: Rectangle

record Character =
  Name :: string
  Encoding :: rune
  Advance :: "int \<times> int"
  Alpha :: "image_Alpha option"
  LowerPoint :: "int \<times> int"

record Font =
  FName :: string
  Size :: int
  PixelSize :: int
  DPI :: "int \<times> int"
  BPP :: int
  Ascent :: int
  Descent :: int
  CapHeight :: int
  XHeight :: int
  Characters :: "Character list"
  CharMap :: "rune \<rightharpoonup> nat"
  FEncoding :: string
  DefaultChar :: rune

text \<open>The zero \<^verbatim>\<open>Character\<close> that \<^verbatim>\<open>make([]Character, count)\<close> fills the slice with.\<close>

definition zeroCharacter :: Character where
  "zeroCharacter =
     \<lparr>Name = [], Encoding = 0, Advance = (0, 0), Alpha = None, LowerPoint = (0, 0)\<rparr>"

text \<open>The \<^verbatim>\<open>Font\<close> literal at the start of \<^verbatim>\<open>Parse\<close>.\<close>

definition initFont :: Font where
  "initFont =
     \<lparr>FName = [], Size = 0, PixelSize = 0, DPI = (0, 0), BPP = 1, Ascent = 0, Descent = 0,
      CapHeight = 0, XHeight = 0, Characters = [], CharMap = Map.empty, FEncoding = [],
      DefaultChar = 32\<rparr>"

subsection \<open>lookup\<close>

definition lookup :: "Font \<Rightarrow> rune \<Rightarrow> nat option" where
  "lookup f r =
     (case CharMap f r of
        Some c \<Rightarrow> Some c
      | None \<Rightarrow>
          (case CharMap f (DefaultChar f) of
             Some c \<Rightarrow> Some c
           | None \<Rightarrow> None))"

subsection \<open>parseGlobalsAndProperties\<close>

text \<open>The local variables of the function, with the font it fills.\<close>

record globals =
  g_f :: Font
  registry :: string
  encoding :: string
  defaultChar :: int

text \<open>
  One turn of the \<^verbatim>\<open>scan\<close> loop on the fields of a line; the flag says that the loop is
  left (\<^verbatim>\<open>break scan\<close>). An assignment \<^verbatim>\<open>x, err = strconv.Atoi(..)\<close> stores the value
  also when \<^verbatim>\<open>err\<close> is set; only \<^verbatim>\<open>PIXEL_SIZE\<close> goes on without looking at \<^verbatim>\<open>err\<close>.
\<close>

definition global_line :: "string list \<Rightarrow> globals \<Rightarrow> (bool \<times> globals) result" where
  "global_line components g =
     (let f = g_f g; kw = components ! 0 in
      if kw = ''FONT'' then
        bind (component components 1) (\<lambda>c1.
        Return (False, g\<lparr>g_f := f\<lparr>FName := c1\<rparr>\<rparr>))
      else if kw = ''SIZE'' then
        bind (component components 1) (\<lambda>c1. bind (atoi c1) (\<lambda>size.
        bind (component components 2) (\<lambda>c2. bind (atoi c2) (\<lambda>dpi0.
        bind (component components 3) (\<lambda>c3. bind (atoi c3) (\<lambda>dpi1.
        if length components > 4 then
          bind (atoi (components ! 4)) (\<lambda>bpp.
          Return (False, g\<lparr>g_f := f\<lparr>Size := size, DPI := (dpi0, dpi1), BPP := bpp\<rparr>\<rparr>))
        else Return (False, g\<lparr>g_f := f\<lparr>Size := size, DPI := (dpi0, dpi1)\<rparr>\<rparr>)))))))
      else if kw = ''CHARSET_REGISTRY'' then
        bind (component components 1) (\<lambda>c1. Return (False, g\<lparr>registry := c1\<rparr>))
      else if kw = ''CHARSET_ENCODING'' then
        bind (component components 1) (\<lambda>c1. Return (False, g\<lparr>encoding := c1\<rparr>))
      else if kw = ''PIXEL_SIZE'' then
        bind (component components 1) (\<lambda>c1.
        Return (False, g\<lparr>g_f := f\<lparr>PixelSize := fst (Atoi c1)\<rparr>\<rparr>))
      else if kw = ''FONT_ASCENT'' then
        bind (component components 1) (\<lambda>c1. bind (atoi c1) (\<lambda>n.
        Return (False, g\<lparr>g_f := f\<lparr>Ascent := n\<rparr>\<rparr>)))
      else if kw = ''FONT_DESCENT'' then
        bind (component components 1) (\<lambda>c1. bind (atoi c1) (\<lambda>n.
        Return (False, g\<lparr>g_f := f\<lparr>Descent := n\<rparr>\<rparr>)))
      else if kw = ''CAP_HEIGHT'' then
        bind (component components 1) (\<lambda>c1. bind (atoi c1) (\<lambda>n.
        Return (False, g\<lparr>g_f := f\<lparr>CapHeight := n\<rparr>\<rparr>)))
      else if kw = ''X_HEIGHT'' then
        bind (component components 1) (\<lambda>c1. bind (atoi c1) (\<lambda>n.
        Return (False, g\<lparr>g_f := f\<lparr>XHeight := n\<rparr>\<rparr>)))
      else if kw = ''DEFAULT_CHAR'' then
        bind (component components 1) (\<lambda>c1. bind (atoi c1) (\<lambda>n.
        Return (False, g\<lparr>defaultChar := n\<rparr>)))
      else if kw = ''CHARS'' then
        bind (component components 1) (\<lambda>c1. bind (atoi c1) (\<lambda>count.
        if makeslice_panics sizeof_Character count then Panic MakeSliceLenOutOfRange
        else Return (True, g\<lparr>g_f := f\<lparr>Characters := replicate (nat count) zeroCharacter\<rparr>\<rparr>)))
      else Return (False, g))"

text \<open>
  The \<^verbatim>\<open>scan\<close> loop over the lines the scanner still holds; it returns the lines left
  for the second loop of \<^verbatim>\<open>Parse\<close>, which reads on from the same scanner.
\<close>

fun globals_loop :: "string list \<Rightarrow> globals \<Rightarrow> (globals \<times> string list) result" where
  "globals_loop [] g = Return (g, [])"
| "globals_loop (l # ls) g =
     (case global_line (Split l) g of
        Return (brk, g') \<Rightarrow> if brk then Return (g', ls) else globals_loop ls g'
      | Fail e \<Rightarrow> Fail e
      | Panic p \<Rightarrow> Panic p)"

definition parseGlobalsAndProperties ::
    "string list \<Rightarrow> Font \<Rightarrow> (Font \<times> string list) result" where
  "parseGlobalsAndProperties ls f =
     (case globals_loop ls \<lparr>g_f = f, registry = [], encoding = [], defaultChar = 0\<rparr> of
        Return (g, rest) \<Rightarrow>
          (let enc = registry g @ ''-'' @ encoding g in
           Return ((g_f g)\<lparr>FEncoding := enc, DefaultChar := charToRune enc (defaultChar g)\<rparr>,
                   rest))
      | Fail e \<Rightarrow> Fail e
      | Panic p \<Rightarrow> Panic p)"

subsection \<open>The bitmap decoder\<close>

text \<open>\<^verbatim>\<open>i>>3\<close> rounds down and \<^verbatim>\<open>xs[i>>3]\<close> panics outside the slice.\<close>

definition bitAt :: "byte list \<Rightarrow> int \<Rightarrow> byte result" where
  "bitAt xs i =
     (if i div 8 < 0 \<or> int (length xs) \<le> i div 8 then Panic IndexOutOfRange
      else Return (drop_bit (nat (7 - i mod 8)) (xs ! nat (i div 8)) AND 1))"

text \<open>The inner loop \<^verbatim>\<open>for j := 0; j < f.BPP; j++\<close> on the byte \<^verbatim>\<open>val\<close>.\<close>

function val_loop :: "byte list \<Rightarrow> int \<Rightarrow> int \<Rightarrow> int \<Rightarrow> byte \<Rightarrow> byte result" where
  "val_loop b bpp i j val =
     (if j < bpp then
        (case bitAt b (i * bpp + j) of
           Return bit1 \<Rightarrow> val_loop b bpp i (j + 1) (push_bit 1 val OR bit1)
         | Fail e \<Rightarrow> Fail e
         | Panic p \<Rightarrow> Panic p)
      else Return val)"
  by pat_completeness auto
termination
  by (relation "measure (\<lambda>(b, bpp, i, j, val). nat (bpp - j))") auto

declare val_loop.simps [simp del]

text \<open>
  \<^verbatim>\<open>byte(uint32(val) * 0xff / ((1 << f.BPP) - 1))\<close>: the constant 1 is a \<^verbatim>\<open>uint32\<close>, the
  shift panics on a negative count and the division on a zero divisor.
\<close>

definition scale :: "int \<Rightarrow> byte \<Rightarrow> byte result" where
  "scale bpp val =
     (if bpp < 0 then Panic NegativeShift
      else if push_bit (nat bpp) (1 :: uint32) - 1 = 0 then Panic DivideByZero
      else Return (ucast ((ucast val :: uint32) * 0xff div (push_bit (nat bpp) 1 - 1))))"

text \<open>
  The loop \<^verbatim>\<open>for i := 0; i < Stride; i++\<close> over the pixels of row \<^verbatim>\<open>row\<close>, on the decoded
  bytes \<^verbatim>\<open>b\<close> of the line; \<^verbatim>\<open>pix\<close> is \<^verbatim>\<open>Alpha.Pix\<close>.
\<close>

function pixel_loop ::
    "byte list \<Rightarrow> int \<Rightarrow> int \<Rightarrow> int \<Rightarrow> int \<Rightarrow> byte list \<Rightarrow> byte list result" where
  "pixel_loop b bpp stride row i pix =
     (if i < stride then
        (case val_loop b bpp i 0 0 of
           Return val \<Rightarrow>
             (case scale bpp val of
                Return v \<Rightarrow>
                  if row * stride + i < 0 \<or> int (length pix) \<le> row * stride + i
                  then Panic IndexOutOfRange
                  else pixel_loop b bpp stride row (i + 1) (pix[nat (row * stride + i) := v])
              | Fail e \<Rightarrow> Fail e
              | Panic p \<Rightarrow> Panic p)
         | Fail e \<Rightarrow> Fail e
         | Panic p \<Rightarrow> Panic p)
      else Return pix)"
  by pat_completeness auto
termination
  by (relation "measure (\<lambda>(b, bpp, stride, row, i, pix). nat (stride - i))") auto

declare pixel_loop.simps [simp del]

subsection \<open>Parse\<close>

text \<open>The font and the local variables \<^verbatim>\<open>char\<close>, \<^verbatim>\<open>row\<close>, \<^verbatim>\<open>inBitmap\<close> of the second loop.\<close>

record pstate =
  st_f :: Font
  st_char :: int
  st_row :: int
  st_inBitmap :: bool

text \<open>A write to a field of \<^verbatim>\<open>f.Characters[char]\<close>.\<close>

definition with_char :: "pstate \<Rightarrow> (Character \<Rightarrow> Character) \<Rightarrow> pstate result" where
  "with_char st upd =
     (if st_char st < 0 \<or> int (length (Characters (st_f st))) \<le> st_char st
      then Panic IndexOutOfRange
      else Return (st\<lparr>st_f := (st_f st)\<lparr>Characters :=
             (Characters (st_f st))[nat (st_char st) :=
                upd (Characters (st_f st) ! nat (st_char st))]\<rparr>\<rparr>))"

text \<open>The code point of an \<^verbatim>\<open>ENCODING\<close> line, as \<^verbatim>\<open>Parse\<close> computes it in place.\<close>

definition encoding_rune :: "charmap option \<Rightarrow> int \<Rightarrow> rune" where
  "encoding_rune charMap code =
     (case charMap of
        Some m \<Rightarrow> DecodeByte m (word_of_int code)
      | None \<Rightarrow> word_of_int code)"

text \<open>A line read while \<^verbatim>\<open>inBitmap\<close> is false.\<close>

definition meta_line :: "charmap option \<Rightarrow> string list \<Rightarrow> pstate \<Rightarrow> pstate result" where
  "meta_line charMap components st =
     (let kw = components ! 0 in
      if kw = ''STARTCHAR'' then
        bind (component components 1) (\<lambda>c1.
        with_char (st\<lparr>st_char := st_char st + 1\<rparr>) (\<lambda>c. c\<lparr>Name := c1\<rparr>))
      else if kw = ''ENCODING'' then
        bind (component components 1) (\<lambda>c1. bind (atoi c1) (\<lambda>code.
        bind (with_char st (\<lambda>c. c\<lparr>Encoding := encoding_rune charMap code\<rparr>)) (\<lambda>st1.
        Return (st1\<lparr>st_f := (st_f st1)\<lparr>CharMap :=
           (CharMap (st_f st1))(encoding_rune charMap code \<mapsto> nat (st_char st))\<rparr>\<rparr>))))
      else if kw = ''DWIDTH'' then
        bind (component components 1) (\<lambda>c1.
        bind (with_char st (\<lambda>c. c\<lparr>Advance := (fst (Atoi c1), snd (Advance c))\<rparr>)) (\<lambda>st1.
        bind (atoi c1) (\<lambda>_.
        bind (component components 2) (\<lambda>c2.
        bind (with_char st1 (\<lambda>c. c\<lparr>Advance := (fst (Advance c), fst (Atoi c2))\<rparr>)) (\<lambda>st2.
        bind (atoi c2) (\<lambda>_. Return st2))))))
      else if kw = ''BBX'' then
        bind (component components 1) (\<lambda>c1. bind (atoi c1) (\<lambda>w.
        bind (component components 2) (\<lambda>c2. bind (atoi c2) (\<lambda>h.
        bind (component components 3) (\<lambda>c3. bind (atoi c3) (\<lambda>lx.
        bind (component components 4) (\<lambda>c4. bind (atoi c4) (\<lambda>ly.
        bind (with_char st (\<lambda>c. c\<lparr>LowerPoint := (lx, ly)\<rparr>)) (\<lambda>st1.
        if makeslice_panics 1 (wrap64 (w * h)) then Panic MakeSliceLenOutOfRange
        else with_char st1 (\<lambda>c. c\<lparr>Alpha := Some
               \<lparr>Pix = replicate (nat (wrap64 (w * h))) 0,
                Stride = w,
                Rect = \<lparr>RMin = \<lparr>X = 0, Y = 0\<rparr>, RMax = \<lparr>X = w, Y = h\<rparr>\<rparr>\<rparr>\<rparr>))))))))))
      else if kw = ''BITMAP'' then
        Return (st\<lparr>st_inBitmap := True, st_row := - 1\<rparr>)
      else Return st)"

text \<open>
  A line read while \<^verbatim>\<open>inBitmap\<close> is true: \<open>line\<close> is the whole line (\<^verbatim>\<open>s.Text()\<close>), which is what
  \<^verbatim>\<open>hex.DecodeString\<close> is given.
\<close>

definition bitmap_line :: "string \<Rightarrow> string list \<Rightarrow> pstate \<Rightarrow> pstate result" where
  "bitmap_line line components st =
     (if components ! 0 = ''ENDCHAR'' then Return (st\<lparr>st_inBitmap := False\<rparr>)
      else
        (case DecodeString line of
           Inl e \<Rightarrow> Fail e
         | Inr b \<Rightarrow>
             if st_char st < 0 \<or> int (length (Characters (st_f st))) \<le> st_char st
             then Panic IndexOutOfRange
             else
               (case Alpha (Characters (st_f st) ! nat (st_char st)) of
                  None \<Rightarrow> Panic NilDereference
                | Some a \<Rightarrow>
                    bind (pixel_loop b (BPP (st_f st)) (Stride a) (st_row st + 1) 0 (Pix a))
                      (\<lambda>pix. with_char (st\<lparr>st_row := st_row st + 1\<rparr>)
                                (\<lambda>c. c\<lparr>Alpha := Some (a\<lparr>Pix := pix\<rparr>)\<rparr>)))))"

definition parse_line :: "charmap option \<Rightarrow> string \<Rightarrow> pstate \<Rightarrow> pstate result" where
  "parse_line charMap line st =
     (if \<not> st_inBitmap st then meta_line charMap (Split line) st
      else bitmap_line line (Split line) st)"

text \<open>The second loop, \<^verbatim>\<open>for s.Scan()\<close>, over the lines left by the first.\<close>

fun chars_loop :: "charmap option \<Rightarrow> string list \<Rightarrow> pstate \<Rightarrow> pstate result" where
  "chars_loop charMap [] st = Return st"
| "chars_loop charMap (l # ls) st =
     (case parse_line charMap l st of
        Return st' \<Rightarrow> chars_loop charMap ls st'
      | Fail e \<Rightarrow> Fail e
      | Panic p \<Rightarrow> Panic p)"

text \<open>
  \<^verbatim>\<open>Parse\<close> on the lines the scanner delivers, and on the bytes of the source. When the
  second loop has read the last line, \<^verbatim>\<open>Parse\<close> returns \<^verbatim>\<open>&f, nil\<close>.
\<close>

definition Parse_lines :: "string list \<Rightarrow> Font result" where
  "Parse_lines ls =
     (case parseGlobalsAndProperties ls initFont of
        Return (f, rest) \<Rightarrow>
          (case chars_loop (findCharmap (FEncoding f)) rest
                  \<lparr>st_f = f, st_char = - 1, st_row = - 1, st_inBitmap = False\<rparr> of
             Return st \<Rightarrow> Return (st_f st)
           | Fail e \<Rightarrow> Fail e
           | Panic p \<Rightarrow> Panic p)
      | Fail e \<Rightarrow> Fail e
      | Panic p \<Rightarrow> Panic p)"

definition Parse :: "string \<Rightarrow> Font result" where
  "Parse data = Parse_lines (ScanLines data)"

subsection \<open>The face\<close>

text \<open>
  \<^verbatim>\<open>fixed.I\<close> and \<^verbatim>\<open>fixed.R\<close> of \<^verbatim>\<open>golang.org/x/image/math/fixed\<close>: a shift by 6 bits into
  an \<^verbatim>\<open>int32\<close>; \<^verbatim>\<open>R\<close> first swaps the coordinates of an ill-formed rectangle.
\<close>

type_synonym Int26_6 = "32 word"

record Rectangle26_6 =
  MinX :: Int26_6
  MinY :: Int26_6
  MaxX :: Int26_6
  MaxY :: Int26_6

definition fixed_I :: "int \<Rightarrow> Int26_6" where
  "fixed_I i = word_of_int (i * 64)"

definition fixed_R :: "int \<Rightarrow> int \<Rightarrow> int \<Rightarrow> int \<Rightarrow> Rectangle26_6" where
  "fixed_R minX minY maxX maxY =
     \<lparr>MinX = fixed_I (if minX > maxX then maxX else minX),
      MinY = fixed_I (if minY > maxY then maxY else minY),
      MaxX = fixed_I (if minX > maxX then minX else maxX),
      MaxY = fixed_I (if minY > maxY then minY else maxY)\<rparr>"

definition Dx :: "Rectangle \<Rightarrow> int" where
  "Dx r = wrap64 (X (RMax r) - X (RMin r))"

text \<open>
  \<^verbatim>\<open>GlyphBounds\<close> of the face of font \<^verbatim>\<open>f\<close>. The pointer that \<^verbatim>\<open>lookup\<close> returns is
  followed into \<^verbatim>\<open>f.Characters\<close>; \<^verbatim>\<open>c.Alpha.Rect\<close> panics for a glyph that has no raster.
\<close>

definition GlyphBounds :: "Font \<Rightarrow> rune \<Rightarrow> (Rectangle26_6 \<times> Int26_6 \<times> bool) result" where
  "GlyphBounds f r =
     (case lookup f r of
        None \<Rightarrow> Return (fixed_R 0 (wrap64 (- Ascent f)) 0 (Descent f), 0, False)
      | Some p \<Rightarrow>
          (let c = Characters f ! p in
           case Alpha c of
             None \<Rightarrow> Panic NilDereference
           | Some a \<Rightarrow>
               Return (fixed_R (fst (LowerPoint c)) (wrap64 (- Ascent f))
                         (wrap64 (fst (LowerPoint c) + Dx (Rect a))) (Descent f),
                       fixed_I (fst (Advance c)), True)))"

subsection \<open>Vocabulary of the statements\<close>

text \<open>The keyword of a line is its first field, \<^verbatim>\<open>components[0]\<close>.\<close>

definition keyword :: "string \<Rightarrow> string" where
  "keyword l = Split l ! 0"

text \<open>
  The packed bits of a row, numbered from the most significant bit of the first byte,
  and the unsigned value of the \<open>n\<close> bits that start at bit \<open>off\<close>.
\<close>

definition stream_bit :: "byte list \<Rightarrow> nat \<Rightarrow> nat" where
  "stream_bit b k = (if bit (b ! (k div 8)) (7 - k mod 8) then 1 else 0)"

fun sample_value :: "byte list \<Rightarrow> nat \<Rightarrow> nat \<Rightarrow> nat" where
  "sample_value b off 0 = 0"
| "sample_value b off (Suc n) = 2 * sample_value b off n + stream_bit b (off + n)"

text \<open>
  The keywords the two loops recognise with arguments, the fields where the code reads
  an integer and looks at the error of \<^verbatim>\<open>strconv.Atoi\<close>, and the number of fields the code
  indexes without looking at the length of the line. (\<^verbatim>\<open>SIZE\<close> reads a fifth field only
  when the line has one; the integer of \<^verbatim>\<open>PIXEL_SIZE\<close> is read and its error dropped.)
  A line is malformed when it has fewer fields than its keyword needs, or a field that
  must be an integer and is none.
\<close>

definition global_keywords :: "string list" where
  "global_keywords =
     [''FONT'', ''SIZE'', ''CHARSET_REGISTRY'', ''CHARSET_ENCODING'', ''PIXEL_SIZE'',
      ''FONT_ASCENT'', ''FONT_DESCENT'', ''CAP_HEIGHT'', ''X_HEIGHT'', ''DEFAULT_CHAR'',
      ''CHARS'']"

definition glyph_keywords :: "string list" where
  "glyph_keywords = [''STARTCHAR'', ''ENCODING'', ''DWIDTH'', ''BBX'']"

definition int_fields :: "string \<Rightarrow> nat list" where
  "int_fields kw =
     (if kw = ''SIZE'' \<or> kw = ''BBX'' then [1, 2, 3, 4]
      else if kw = ''DWIDTH'' then [1, 2]
      else if kw \<in> set [''FONT_ASCENT'', ''FONT_DESCENT'', ''CAP_HEIGHT'', ''X_HEIGHT'',
                         ''DEFAULT_CHAR'', ''CHARS'', ''ENCODING''] then [1]
      else [])"

definition min_fields :: "string \<Rightarrow> nat" where
  "min_fields kw =
     (if kw = ''BBX'' then 5
      else if kw = ''SIZE'' then 4
      else if kw = ''DWIDTH'' then 3
      else if kw \<in> set global_keywords \<or> kw \<in> set glyph_keywords then 2
      else 1)"

definition malformed :: "string list \<Rightarrow> bool" where
  "malformed components =
     (length components < min_fields (components ! 0)
      \<or> list_ex (\<lambda>i. i < length components \<and> snd (Atoi (components ! i)) \<noteq> None)
           (int_fields (components ! 0)))"


text \<open>
  The first defect of a line, in the order in which the code reads its fields: the field
  \<open>i\<close> is missing (the line ends before a field that the code indexes), or the field \<open>i\<close>
  is there and is no integer where the code looks at the error of \<^verbatim>\<open>strconv.Atoi\<close>. No
  keyword reads more than four fields.
\<close>

datatype problem = NotInteger nat | Missing nat

fun first_problem_in :: "string list \<Rightarrow> nat list \<Rightarrow> problem option" where
  "first_problem_in cs [] = None"
| "first_problem_in cs (i # rest) =
     (if length cs \<le> i then (if i < min_fields (cs ! 0) then Some (Missing i) else None)
      else if i \<in> set (int_fields (cs ! 0)) \<and> snd (Atoi (cs ! i)) \<noteq> None
        then Some (NotInteger i)
      else first_problem_in cs rest)"

definition first_problem :: "string list \<Rightarrow> problem option" where
  "first_problem cs = first_problem_in cs [1, 2, 3, 4]"

text \<open>
  Whether the second loop is inside a bitmap after it has read the lines \<open>ls\<close>, having
  started them with \<^verbatim>\<open>inBitmap\<close> = \<open>b\<close>: \<^verbatim>\<open>BITMAP\<close> enters a bitmap and \<^verbatim>\<open>ENDCHAR\<close> leaves it.
\<close>

fun bitmap_mode :: "bool \<Rightarrow> string list \<Rightarrow> bool" where
  "bitmap_mode b [] = b"
| "bitmap_mode b (l # ls) =
     bitmap_mode (if b then keyword l \<noteq> ''ENDCHAR'' else keyword l = ''BITMAP'') ls"

section \<open>Properties\<close>

subsection \<open>Outcomes\<close>

lemma bind_eq_Return: "bind m k = Return y \<longleftrightarrow> (\<exists>x. m = Return x \<and> k x = Return y)"
  by (cases m) auto

lemma component_eq_Return:
  "component cs i = Return c \<longleftrightarrow> (i < length cs \<and> c = cs ! i)"
  by (auto simp: component_def)

lemma atoi_eq_Return: "atoi s = Return n \<longleftrightarrow> Atoi s = (n, None)"
  by (auto simp: atoi_def split: prod.splits option.splits)

lemma atoi_eq_Fail: "atoi s = Fail e \<longleftrightarrow> (\<exists>v. Atoi s = (v, Some e))"
  by (auto simp: atoi_def split: prod.splits option.splits)

lemma with_char_eq_Return:
  "with_char st upd = Return st' \<longleftrightarrow>
     (0 \<le> st_char st \<and> st_char st < int (length (Characters (st_f st))) \<and>
      st' = st\<lparr>st_f := (st_f st)\<lparr>Characters :=
             (Characters (st_f st))[nat (st_char st) :=
                upd (Characters (st_f st) ! nat (st_char st))]\<rparr>\<rparr>)"
  by (auto simp: with_char_def)

subsection \<open>Split and the head of a line\<close>

lemma Split_from_head: "\<exists>r. cur @ s = (Split_from cur s ! 0) @ r"
proof (induction s arbitrary: cur)
  case Nil
  then show ?case by simp
next
  case (Cons c cs)
  show ?case
  proof (cases "c = CHR '' ''")
    case True
    then show ?thesis by simp
  next
    case False
    with Cons [of "cur @ [c]"] show ?thesis by simp
  qed
qed

lemma keyword_prefix: "\<exists>r. l = keyword l @ r"
  using Split_from_head [of "[]" l] by (simp add: keyword_def Split_def)

lemma Split_from_length: "0 < length (Split_from cur s)"
  by (induction s arbitrary: cur) auto

lemma DecodeString_STARTCHAR: "keyword l = ''STARTCHAR'' \<Longrightarrow> \<exists>e. DecodeString l = Inl e"
  using keyword_prefix [of l] by (auto simp: fromHexChar_def)

lemma DecodeString_ENCODING: "keyword l = ''ENCODING'' \<Longrightarrow> \<exists>e. DecodeString l = Inl e"
  using keyword_prefix [of l] by (auto simp: fromHexChar_def)

lemma DecodeString_DWIDTH: "keyword l = ''DWIDTH'' \<Longrightarrow> \<exists>e. DecodeString l = Inl e"
  using keyword_prefix [of l] by (auto simp: fromHexChar_def)

lemma DecodeString_X: "\<exists>e. DecodeString (CHR ''X'' # r) = Inl e"
  by (cases r) (auto simp: fromHexChar_def)

lemma DecodeString_BBX: "keyword l = ''BBX'' \<Longrightarrow> \<exists>e. DecodeString l = Inl e"
proof -
  assume "keyword l = ''BBX''"
  with keyword_prefix [of l] obtain r where t: "l = ''BBX'' @ r" by auto
  obtain e where "DecodeString (CHR ''X'' # r) = Inl e" using DecodeString_X by blast
  with t show ?thesis by (simp add: fromHexChar_def)
qed

subsection \<open>One line of the second loop\<close>

lemma meta_line_Return:
  assumes "meta_line cm cs st = Return st'"
  shows "length (Characters (st_f st')) = length (Characters (st_f st))"
    and "st_char st' = (if cs ! 0 = ''STARTCHAR'' then st_char st + 1 else st_char st)"
    and "cs ! 0 = ''STARTCHAR'' \<Longrightarrow> st_char st' < int (length (Characters (st_f st)))"
    and "DefaultChar (st_f st') = DefaultChar (st_f st)"
    and "BPP (st_f st') = BPP (st_f st)"
    and "FEncoding (st_f st') = FEncoding (st_f st)"
  using assms
  by (auto simp: meta_line_def Let_def bind_eq_Return component_eq_Return with_char_eq_Return
           split: if_splits)

lemma bitmap_line_Return:
  assumes "bitmap_line l cs st = Return st'"
  shows "length (Characters (st_f st')) = length (Characters (st_f st))"
    and "st_char st' = st_char st"
    and "DefaultChar (st_f st') = DefaultChar (st_f st)"
    and "BPP (st_f st') = BPP (st_f st)"
    and "FEncoding (st_f st') = FEncoding (st_f st)"
    and "CharMap (st_f st') = CharMap (st_f st)"
  using assms
  by (auto simp: bitmap_line_def Let_def bind_eq_Return with_char_eq_Return
           split: if_splits sum.splits option.splits)

lemma bitmap_line_keyword:
  assumes "bitmap_line l cs st = Return st'"
  shows "keyword l \<notin> {''STARTCHAR'', ''ENCODING'', ''DWIDTH'', ''BBX''} \<or> cs ! 0 = ''ENDCHAR''"
  using assms DecodeString_STARTCHAR [of l] DecodeString_ENCODING [of l]
    DecodeString_DWIDTH [of l] DecodeString_BBX [of l]
  by (auto simp: bitmap_line_def split: if_splits sum.splits)

lemma parse_line_Return:
  assumes "parse_line cm l st = Return st'"
  shows "length (Characters (st_f st')) = length (Characters (st_f st))"
    and "st_char st' = (if keyword l = ''STARTCHAR'' then st_char st + 1 else st_char st)"
    and "keyword l = ''STARTCHAR'' \<Longrightarrow> st_char st' < int (length (Characters (st_f st)))"
    and "DefaultChar (st_f st') = DefaultChar (st_f st)"
    and "BPP (st_f st') = BPP (st_f st)"
    and "FEncoding (st_f st') = FEncoding (st_f st)"
proof -
  show "length (Characters (st_f st')) = length (Characters (st_f st))"
    using assms meta_line_Return(1) bitmap_line_Return(1)
    by (auto simp: parse_line_def split: if_splits)
  show "st_char st' = (if keyword l = ''STARTCHAR'' then st_char st + 1 else st_char st)"
    using assms meta_line_Return(2) [of cm "Split l" st st']
      bitmap_line_Return(2) [of l "Split l" st st'] bitmap_line_keyword [of l "Split l" st st']
    by (auto simp: parse_line_def keyword_def split: if_splits)
  show "keyword l = ''STARTCHAR'' \<Longrightarrow> st_char st' < int (length (Characters (st_f st)))"
    using assms meta_line_Return(3) [of cm "Split l" st st']
      bitmap_line_keyword [of l "Split l" st st']
    by (auto simp: parse_line_def keyword_def split: if_splits)
  show "DefaultChar (st_f st') = DefaultChar (st_f st)"
    using assms meta_line_Return(4) bitmap_line_Return(3)
    by (auto simp: parse_line_def split: if_splits)
  show "BPP (st_f st') = BPP (st_f st)"
    using assms meta_line_Return(5) bitmap_line_Return(4)
    by (auto simp: parse_line_def split: if_splits)
  show "FEncoding (st_f st') = FEncoding (st_f st)"
    using assms meta_line_Return(6) bitmap_line_Return(5)
    by (auto simp: parse_line_def split: if_splits)
qed

subsection \<open>The second loop\<close>

lemma chars_loop_append:
  "chars_loop cm (pre @ post) st = bind (chars_loop cm pre st) (chars_loop cm post)"
  by (induction pre arbitrary: st) (auto split: result.splits)

lemma chars_loop_Return:
  assumes "chars_loop cm ls st = Return st'"
  shows "length (Characters (st_f st')) = length (Characters (st_f st))
     \<and> st_char st' = st_char st + int (length (filter (\<lambda>l. keyword l = ''STARTCHAR'') ls))
     \<and> ((\<exists>l\<in>set ls. keyword l = ''STARTCHAR'') \<longrightarrow>
           st_char st' < int (length (Characters (st_f st))))
     \<and> DefaultChar (st_f st') = DefaultChar (st_f st)
     \<and> BPP (st_f st') = BPP (st_f st)
     \<and> FEncoding (st_f st') = FEncoding (st_f st)"
  using assms
proof (induction ls arbitrary: st)
  case Nil
  then show ?case by simp
next
  case (Cons l ls)
  from Cons.prems obtain st1 where
    step: "parse_line cm l st = Return st1" and rest: "chars_loop cm ls st1 = Return st'"
    by (auto split: result.splits)
  note s = parse_line_Return [OF step]
  note r = Cons.IH [OF rest]
  show ?case
  proof (cases "\<exists>x\<in>set ls. keyword x = ''STARTCHAR''")
    case True
    with s r show ?thesis by auto
  next
    case False
    then have "filter (\<lambda>l. keyword l = ''STARTCHAR'') ls = []"
      by (auto simp: filter_empty_conv)
    with s r False show ?thesis by auto
  qed
qed

subsection \<open>The first loop\<close>

lemma global_line_Return:
  assumes "global_line cs g = Return (brk, g')"
  shows "brk \<longleftrightarrow> cs ! 0 = ''CHARS''"
    and "cs ! 0 \<noteq> ''DEFAULT_CHAR'' \<Longrightarrow> defaultChar g' = defaultChar g"
    and "cs ! 0 \<noteq> ''CHARS'' \<Longrightarrow> Characters (g_f g') = Characters (g_f g)"
    and "cs ! 0 = ''CHARS'' \<Longrightarrow>
           0 \<le> fst (Atoi (cs ! 1)) \<and> snd (Atoi (cs ! 1)) = None \<and>
           Characters (g_f g') = replicate (nat (fst (Atoi (cs ! 1)))) zeroCharacter"
    and "CharMap (g_f g') = CharMap (g_f g)"
  using assms
  by (auto simp: global_line_def Let_def bind_eq_Return component_eq_Return atoi_eq_Return
           makeslice_panics_def split: if_splits)

lemma globals_loop_prefix:
  assumes "\<forall>x\<in>set pre. keyword x \<noteq> ''CHARS''"
  shows "globals_loop (pre @ ls) g =
           bind (globals_loop pre g) (\<lambda>(g', r). globals_loop ls g')"
  using assms
proof (induction pre arbitrary: g)
  case Nil
  then show ?case by simp
next
  case (Cons l pre)
  show ?case
  proof (cases "global_line (Split l) g")
    case (Return x)
    obtain brk g1 where x: "x = (brk, g1)" by (cases x)
    from global_line_Return(1) [OF Return [unfolded x]] Cons.prems
    have "\<not> brk" by (simp add: keyword_def)
    with Return x Cons show ?thesis by simp
  qed simp_all
qed

lemma globals_loop_defaultChar:
  assumes "globals_loop ls g = Return (g', rest)"
    and "\<forall>x\<in>set ls. keyword x \<noteq> ''DEFAULT_CHAR''"
  shows "defaultChar g' = defaultChar g"
  using assms
proof (induction ls arbitrary: g)
  case Nil
  then show ?case by simp
next
  case (Cons l ls)
  from Cons.prems(1) obtain brk g1 where
    step: "global_line (Split l) g = Return (brk, g1)"
    and rest: "if brk then g' = g1 else globals_loop ls g1 = Return (g', rest)"
    by (auto split: result.splits if_splits)
  from global_line_Return(2) [OF step] Cons.prems(2)
  have d: "defaultChar g1 = defaultChar g" by (simp add: keyword_def)
  show ?case
  proof (cases brk)
    case True
    with rest d show ?thesis by simp
  next
    case False
    with rest have "globals_loop ls g1 = Return (g', rest)" by simp
    from Cons.IH [OF this] Cons.prems(2) d show ?thesis by simp
  qed
qed

lemma globals_loop_cut:
  assumes "globals_loop (pre @ post) g = Return (g', rest)"
  shows "(\<exists>rest'. globals_loop pre g = Return (g', rest') \<and> rest = rest' @ post)
       \<or> (\<exists>g''. globals_loop pre g = Return (g'', []))"
  using assms
proof (induction pre arbitrary: g)
  case Nil
  then show ?case by simp
next
  case (Cons l pre)
  from Cons.prems obtain brk g1 where
    step: "global_line (Split l) g = Return (brk, g1)"
    and rest: "if brk then g' = g1 \<and> rest = pre @ post
               else globals_loop (pre @ post) g1 = Return (g', rest)"
    by (auto split: result.splits if_splits)
  show ?case
  proof (cases brk)
    case True
    with step rest show ?thesis by simp
  next
    case False
    with rest have "globals_loop (pre @ post) g1 = Return (g', rest)" by simp
    from Cons.IH [OF this] step False show ?thesis by simp
  qed
qed

subsection \<open>Parse\<close>

lemma DecodeByte_zero: "DecodeByte m 0 = 0"
  by (cases m) (simp_all add: DecodeByte_def)

lemma charToRune_zero: "charToRune enc 0 = 0"
  by (simp add: charToRune_def DecodeByte_zero split: option.splits)

lemma Parse_lines_ReturnD:
  assumes "Parse_lines ls = Return f"
  obtains g rest st where
    "globals_loop ls \<lparr>g_f = initFont, registry = [], encoding = [], defaultChar = 0\<rparr>
       = Return (g, rest)"
    and "chars_loop (findCharmap (registry g @ ''-'' @ encoding g)) rest
           \<lparr>st_f = (g_f g)\<lparr>FEncoding := registry g @ ''-'' @ encoding g,
                    DefaultChar := charToRune (registry g @ ''-'' @ encoding g) (defaultChar g)\<rparr>,
            st_char = - 1, st_row = - 1, st_inBitmap = False\<rparr> = Return st"
    and "f = st_f st"
  using assms
  by (auto simp: Parse_lines_def parseGlobalsAndProperties_def Let_def split: result.splits)

lemma Parse_lines_ReturnI:
  assumes "globals_loop ls \<lparr>g_f = initFont, registry = [], encoding = [], defaultChar = 0\<rparr>
       = Return (g, rest)"
    and "chars_loop (findCharmap (registry g @ ''-'' @ encoding g)) rest
           \<lparr>st_f = (g_f g)\<lparr>FEncoding := registry g @ ''-'' @ encoding g,
                    DefaultChar := charToRune (registry g @ ''-'' @ encoding g) (defaultChar g)\<rparr>,
            st_char = - 1, st_row = - 1, st_inBitmap = False\<rparr> = Return st"
  shows "Parse_lines ls = Return (st_f st)"
  using assms
  by (simp add: Parse_lines_def parseGlobalsAndProperties_def Let_def)

lemma Return_caseE:
  assumes "case r of Return x \<Rightarrow> P x | Fail e \<Rightarrow> False | Panic p \<Rightarrow> False"
  obtains x where "r = Return x" and "P x"
  using assms by (cases r) auto


subsection \<open>Identifiers of character sets\<close>






subsection \<open>The code-point index\<close>

lemma meta_line_CharMap:
  assumes "meta_line cm cs st = Return st'"
  shows "cs ! 0 = ''ENCODING'' \<Longrightarrow>
           0 \<le> st_char st \<and> st_char st < int (length (Characters (st_f st))) \<and>
           CharMap (st_f st') =
             (CharMap (st_f st))(encoding_rune cm (fst (Atoi (cs ! 1))) \<mapsto> nat (st_char st))"
    and "cs ! 0 \<noteq> ''ENCODING'' \<Longrightarrow> CharMap (st_f st') = CharMap (st_f st)"
  using assms
  by (auto simp: meta_line_def Let_def bind_eq_Return component_eq_Return with_char_eq_Return
        atoi_eq_Return split: if_splits)

lemma parse_line_CharMap:
  assumes "parse_line cm l st = Return st'"
  shows "keyword l = ''ENCODING'' \<Longrightarrow>
           0 \<le> st_char st \<and> st_char st < int (length (Characters (st_f st))) \<and>
           CharMap (st_f st') =
             (CharMap (st_f st))(encoding_rune cm (fst (Atoi (Split l ! 1))) \<mapsto> nat (st_char st))"
    and "keyword l \<noteq> ''ENCODING'' \<Longrightarrow> CharMap (st_f st') = CharMap (st_f st)"
proof -
  show "keyword l = ''ENCODING'' \<Longrightarrow>
           0 \<le> st_char st \<and> st_char st < int (length (Characters (st_f st))) \<and>
           CharMap (st_f st') =
             (CharMap (st_f st))(encoding_rune cm (fst (Atoi (Split l ! 1))) \<mapsto> nat (st_char st))"
    using assms meta_line_CharMap(1) [of cm "Split l" st st']
      bitmap_line_keyword [of l "Split l" st st']
    by (auto simp: parse_line_def keyword_def split: if_splits)
  show "keyword l \<noteq> ''ENCODING'' \<Longrightarrow> CharMap (st_f st') = CharMap (st_f st)"
    using assms meta_line_CharMap(2) [of cm "Split l" st st']
      bitmap_line_Return(6) [of l "Split l" st st']
    by (auto simp: parse_line_def keyword_def split: if_splits)
qed


text \<open>Every pointer in the index points into \<^verbatim>\<open>f.Characters\<close>.\<close>

lemma chars_loop_CharMap_valid:
  assumes "chars_loop cm ls st = Return st'"
    and "\<forall>r p. CharMap (st_f st) r = Some p \<longrightarrow> p < length (Characters (st_f st))"
  shows "\<forall>r p. CharMap (st_f st') r = Some p \<longrightarrow> p < length (Characters (st_f st'))"
  using assms
proof (induction ls arbitrary: st)
  case Nil
  then show ?case by simp
next
  case (Cons l ls)
  from Cons.prems(1) obtain st1 where
    step: "parse_line cm l st = Return st1" and rest: "chars_loop cm ls st1 = Return st'"
    by (auto split: result.splits)
  have "\<forall>r p. CharMap (st_f st1) r = Some p \<longrightarrow> p < length (Characters (st_f st1))"
    using parse_line_CharMap [OF step] parse_line_Return(1) [OF step] Cons.prems(2)
    by (cases "keyword l = ''ENCODING''") (auto split: if_splits)
  from Cons.IH [OF rest this] show ?case .
qed

lemma globals_loop_CharMap:
  assumes "globals_loop ls g = Return (g', rest)"
  shows "CharMap (g_f g') = CharMap (g_f g)"
  using assms
proof (induction ls arbitrary: g)
  case Nil
  then show ?case by simp
next
  case (Cons l ls)
  from Cons.prems(1) obtain brk g1 where
    step: "global_line (Split l) g = Return (brk, g1)"
    and rest: "if brk then g' = g1 else globals_loop ls g1 = Return (g', rest)"
    by (auto split: result.splits if_splits)
  from global_line_Return(5) [OF step] rest Cons.IH [of g1] show ?case
    by (cases brk) auto
qed

lemma Parse_lines_CharMap_valid:
  assumes "Parse_lines ls = Return f" and "CharMap f r = Some p"
  shows "p < length (Characters f)"
proof -
  from assms(1) obtain g rest st where
    g: "globals_loop ls
          \<lparr>g_f = initFont, registry = [], encoding = [], defaultChar = 0\<rparr> = Return (g, rest)"
    and c: "chars_loop (findCharmap (registry g @ ''-'' @ encoding g)) rest
           \<lparr>st_f = (g_f g)\<lparr>FEncoding := registry g @ ''-'' @ encoding g,
                    DefaultChar := charToRune (registry g @ ''-'' @ encoding g) (defaultChar g)\<rparr>,
            st_char = - 1, st_row = - 1, st_inBitmap = False\<rparr> = Return st"
    and f: "f = st_f st"
    by (rule Parse_lines_ReturnD)
  from globals_loop_CharMap [OF g] have "CharMap (g_f g) = Map.empty"
    by (simp add: initFont_def)
  with chars_loop_CharMap_valid [OF c] assms(2) f show ?thesis
    by simp
qed

subsection \<open>Malformed lines\<close>

lemma Atoi_error: "Atoi s = (v, Some e) \<Longrightarrow> \<exists>k. e = NumError ''Atoi'' s k"
  by (auto simp: Atoi_def Let_def split: if_splits sum.splits numerr.splits)














subsection \<open>Samples of a bitmap row\<close>

lemma sample_value_bound: "sample_value b off n < 2 ^ n"
  by (induction n) (auto simp: stream_bit_def)

lemma unat_of_bool_byte: "unat (of_bool P :: byte) = of_bool P"
  by (cases P) (simp_all only: of_bool_def if_True if_False unsigned_0 unsigned_1)

lemma bit_and_1: "drop_bit n (w :: byte) AND 1 = of_bool (bit w n)"
  by (simp only: and_one_eq mod_2_eq_odd bit_iff_odd_drop_bit [symmetric])

lemma unat_bit_and_1: "unat (drop_bit n (w :: byte) AND 1) = (if bit w n then 1 else 0)"
  by (simp only: bit_and_1 unat_of_bool_byte) (simp only: of_bool_def)

lemma bitAt_Return:
  assumes "bitAt b k = Return x" and "0 \<le> k"
  shows "unat x = stream_bit b (nat k)"
proof -
  from assms(2) have "nat (k div 8) = nat k div 8" "nat (7 - k mod 8) = 7 - nat k mod 8"
    by (simp_all add: nat_div_distrib nat_mod_distrib nat_diff_distrib)
  with assms show ?thesis
    by (auto simp: bitAt_def stream_bit_def unat_bit_and_1 split: if_splits)
qed

lemma shift_in_bit:
  assumes "unat (val :: byte) < 128" and "unat bit1 \<le> 1"
  shows "unat (push_bit 1 val OR bit1) = 2 * unat val + unat bit1"
proof -
  from assms(2) have "unat bit1 = unat (0 :: byte) \<or> unat bit1 = unat (1 :: byte)"
    by auto
  then have "bit1 = 0 \<or> bit1 = 1"
    by (simp only: word_unat_eq_iff [symmetric])
  then show ?thesis
  proof
    assume "bit1 = 0"
    with assms(1) show ?thesis
      by (simp add: push_bit_eq_mult unat_word_ariths)
  next
    assume b: "bit1 = 1"
    have "push_bit 1 val OR 1 = 2 * val + 1"
      by (simp add: push_bit_eq_mult or_one_eq)
    with assms(1) b show ?thesis
      by (simp add: unat_word_ariths)
  qed
qed

lemma val_loop_value:
  assumes "val_loop b B i j val = Return v"
    and "0 \<le> i" and "0 \<le> j" and "j \<le> B" and "B \<le> 8"
    and "unat val = sample_value b (nat (i * B)) (nat j)"
  shows "unat v = sample_value b (nat (i * B)) (nat B)"
  using assms
proof (induction b B i j val rule: val_loop.induct)
  case (1 b bpp i j val)
  note unfold = val_loop.simps [of b bpp i j val]
  show ?case
  proof (cases "j < bpp")
    case False
    with "1.prems" unfold show ?thesis by simp
  next
    case True
    with "1.prems"(1) unfold obtain bit1 where
      b1: "bitAt b (i * bpp + j) = Return bit1"
      and rest: "val_loop b bpp i (j + 1) (push_bit 1 val OR bit1) = Return v"
      by (auto split: result.splits)
    from "1.prems" True have nn: "0 \<le> i * bpp + j" "0 \<le> i * bpp" by simp_all
    from bitAt_Return [OF b1 nn(1)] nn "1.prems"(3)
    have u: "unat bit1 = stream_bit b (nat (i * bpp) + nat j)"
      by (simp add: nat_add_distrib)
    then have le1: "unat bit1 \<le> 1" by (simp add: stream_bit_def)
    from True "1.prems" have "nat j < 8" by simp
    then have "(2::nat) ^ nat j \<le> 2 ^ 7" by (intro power_increasing) simp_all
    with sample_value_bound [of b "nat (i * bpp)" "nat j"] "1.prems"(6)
    have small: "unat val < 128" by simp
    from "1.prems"(3) have sj: "nat (j + 1) = Suc (nat j)" by simp
    have "unat (push_bit 1 val OR bit1) = sample_value b (nat (i * bpp)) (nat (j + 1))"
      using shift_in_bit [OF small le1] u "1.prems"(6) by (simp add: sj)
    from "1.IH" [OF True b1 rest "1.prems"(2) _ _ "1.prems"(5) this] True "1.prems"(3)
    show ?thesis by simp
  qed
qed

lemma scale_arith:
  assumes "0 < d" and "d < 256" and "unat (val :: byte) \<le> d"
  shows "unat (ucast ((ucast val :: uint32) * 0xff div of_nat d) :: byte) = unat val * 255 div d"
proof -
  have "unat val < 256" using unsigned_less [of val] by simp
  then have v: "unat (ucast val :: uint32) = unat val"
    by (simp add: unsigned_ucast_eq take_bit_nat_eq_self)
  note \<open>unat val < 256\<close>
  then have m: "unat ((ucast val :: uint32) * 0xff) = unat val * 255"
    by (simp add: unat_word_ariths v)
  from assms(2) have "d mod 2 ^ 32 = d" by simp
  then have d: "unat (of_nat d :: uint32) = d"
    by (simp only: unat_of_nat) simp
  have q: "unat ((ucast val :: uint32) * 0xff div of_nat d) = unat val * 255 div d"
    by (simp add: unat_div m d)
  from assms(1,3) have "unat val * 255 div d \<le> d * 255 div d"
    by (intro div_le_mono) simp
  with assms(1) have "unat val * 255 div d < 256" by simp
  with q show ?thesis
    by (simp add: unsigned_ucast_eq take_bit_nat_eq_self)
qed

lemma scale_value:
  assumes "1 \<le> B" and "B \<le> 8" and "unat val < 2 ^ nat B"
  shows "\<exists>x. scale B val = Return x \<and> unat x = unat val * 255 div (2 ^ nat B - 1)"
proof -
  define d where "d = (2::nat) ^ nat B - 1"
  from assms(1,2) have nB: "1 \<le> nat B" "nat B \<le> 8" by simp_all
  then have "(2::nat) ^ 1 \<le> 2 ^ nat B" "(2::nat) ^ nat B \<le> 2 ^ 8"
    by (intro power_increasing; simp)+
  then have d: "0 < d" "d < 256" by (simp_all add: d_def)
  have p: "push_bit (nat B) (1 :: uint32) - 1 = of_nat d"
    by (simp add: push_bit_of_1 of_nat_diff d_def)
  from d have "d mod 2 ^ 32 = d" by simp
  then have "unat (of_nat d :: uint32) = d"
    by (simp only: unat_of_nat) simp
  with d have nz: "(of_nat d :: uint32) \<noteq> 0" by (metis less_numeral_extra(3) unat_0)
  from assms(3) have "unat val \<le> d" by (simp add: d_def)
  from scale_arith [OF d this] assms(1) nz have
    "\<exists>x. scale B val = Return x \<and> unat x = unat val * 255 div d"
    unfolding scale_def p by simp
  then show ?thesis by (simp add: d_def)
qed

lemma pixel_loop_result:
  assumes "pixel_loop b B stride row i0 pix = Return pix'"
    and "1 \<le> B" and "B \<le> 8" and "0 \<le> i0"
  shows "length pix' = length pix
     \<and> (\<forall>i. i0 \<le> i \<and> i < stride \<longrightarrow>
           unat (pix' ! nat (row * stride + i))
             = sample_value b (nat (i * B)) (nat B) * 255 div (2 ^ nat B - 1))
     \<and> (\<forall>k. (\<forall>i. i0 \<le> i \<and> i < stride \<longrightarrow> k \<noteq> nat (row * stride + i)) \<longrightarrow>
           pix' ! k = pix ! k)"
  using assms
proof (induction b B stride row i0 pix rule: pixel_loop.induct)
  case (1 b bpp stride row i0 pix)
  note unfold = pixel_loop.simps [of b bpp stride row i0 pix]
  show ?case
  proof (cases "i0 < stride")
    case False
    with "1.prems"(1) unfold show ?thesis by simp
  next
    case True
    let ?idx = "row * stride + i0"
    from True "1.prems"(1) unfold obtain val v where
      vl: "val_loop b bpp i0 0 0 = Return val"
      and sc: "scale bpp val = Return v"
      and idx: "0 \<le> ?idx" "?idx < int (length pix)"
      and rest: "pixel_loop b bpp stride row (i0 + 1) (pix[nat ?idx := v]) = Return pix'"
      by (auto split: result.splits if_splits)
    from val_loop_value [OF vl "1.prems"(4) _ _ "1.prems"(3)] "1.prems"(2)
    have uv: "unat val = sample_value b (nat (i0 * bpp)) (nat bpp)"
      by simp
    with sample_value_bound [of b "nat (i0 * bpp)" "nat bpp"]
    have "unat val < 2 ^ nat bpp" by simp
    from scale_value [OF "1.prems"(2,3) this] sc uv
    have v: "unat v = sample_value b (nat (i0 * bpp)) (nat bpp) * 255 div (2 ^ nat bpp - 1)"
      by simp
    have "0 \<le> i0 + 1" using "1.prems"(4) by simp
    note ih = "1.IH" [OF True vl sc _ rest "1.prems"(2,3) this]
    from idx have nidx: "\<not> (?idx < 0 \<or> int (length pix) \<le> ?idx)" by simp
    note ih = ih [OF nidx]
    have here: "pix' ! nat ?idx = v"
    proof -
      have "\<forall>i. i0 + 1 \<le> i \<and> i < stride \<longrightarrow> nat ?idx \<noteq> nat (row * stride + i)"
        using idx by auto
      with ih have "pix' ! nat ?idx = (pix[nat ?idx := v]) ! nat ?idx" by blast
      with idx show ?thesis by simp
    qed
    show ?thesis
    proof (intro conjI allI impI)
      from ih show "length pix' = length pix" by simp
    next
      fix i
      assume i: "i0 \<le> i \<and> i < stride"
      show "unat (pix' ! nat (row * stride + i))
              = sample_value b (nat (i * bpp)) (nat bpp) * 255 div (2 ^ nat bpp - 1)"
      proof (cases "i = i0")
        case True
        with here v show ?thesis by simp
      next
        case False
        with i have "i0 + 1 \<le> i \<and> i < stride" by simp
        with ih show ?thesis by blast
      qed
    next
      fix k
      assume k: "\<forall>i. i0 \<le> i \<and> i < stride \<longrightarrow> k \<noteq> nat (row * stride + i)"
      then have "\<forall>i. i0 + 1 \<le> i \<and> i < stride \<longrightarrow> k \<noteq> nat (row * stride + i)"
        by simp
      with ih have "pix' ! k = (pix[nat ?idx := v]) ! k" by blast
      moreover from k True have "k \<noteq> nat ?idx" by blast
      ultimately show "pix' ! k = pix ! k" by simp
    qed
  qed
qed

lemma exact_scale:
  assumes "B \<in> {1, 2, 4, 8}"
  shows "int (v * 255 div (2 ^ nat B - 1)) = round (real v * 255 / (2 ^ nat B - 1))"
proof -
  have r: "round (real k) = int k" for k :: nat
    by (metis of_int_of_nat_eq round_of_int)
  from assms consider "B = 1" | "B = 2" | "B = 4" | "B = 8" by auto
  then show ?thesis
  proof cases
    case 1
    have "real v * 255 / (2 ^ nat 1 - 1) = real (v * 255)" by simp
    moreover have "v * 255 div (2 ^ nat 1 - 1) = v * 255" by simp
    ultimately show ?thesis using 1 r [of "v * 255"] by (simp only:)
  next
    case 2
    have "real v * 255 / (2 ^ nat 2 - 1) = real (v * 85)" by simp
    moreover have "v * 255 div (2 ^ nat 2 - 1) = v * 85" by simp
    ultimately show ?thesis using 2 r [of "v * 85"] by (simp only:)
  next
    case 3
    have "real v * 255 / (2 ^ nat 4 - 1) = real (v * 17)" by simp
    moreover have "v * 255 div (2 ^ nat 4 - 1) = v * 17" by simp
    ultimately show ?thesis using 3 r [of "v * 17"] by (simp only:)
  next
    case 4
    have "real v * 255 / (2 ^ nat 8 - 1) = real v" by simp
    moreover have "v * 255 div (2 ^ nat 8 - 1) = v" by simp
    ultimately show ?thesis using 4 r [of v] by (simp only:)
  qed
qed

subsection \<open>Parse on the lines of a source\<close>


lemma no_DEFAULT_CHAR_lines:
  assumes "Parse_lines ls = Return f"
    and "\<forall>x\<in>set ls. keyword x \<noteq> ''DEFAULT_CHAR''"
  shows "DefaultChar f = 0"
proof -
  from assms(1) obtain g r st where
    g: "globals_loop ls
          \<lparr>g_f = initFont, registry = [], encoding = [], defaultChar = 0\<rparr> = Return (g, r)"
    and c: "chars_loop (findCharmap (registry g @ ''-'' @ encoding g)) r
           \<lparr>st_f = (g_f g)\<lparr>FEncoding := registry g @ ''-'' @ encoding g,
                    DefaultChar := charToRune (registry g @ ''-'' @ encoding g) (defaultChar g)\<rparr>,
            st_char = - 1, st_row = - 1, st_inBitmap = False\<rparr> = Return st"
    and f: "f = st_f st"
    by (rule Parse_lines_ReturnD)
  from globals_loop_defaultChar [OF g assms(2)] have "defaultChar g = 0" by simp
  with chars_loop_Return [OF c] f show ?thesis by (simp add: charToRune_zero)
qed


lemma truncated_lines:
  assumes "Parse_lines (pre @ post) = Return f"
  shows "\<exists>f'. Parse_lines pre = Return f'"
proof -
  from assms obtain g r st where
    g: "globals_loop (pre @ post)
          \<lparr>g_f = initFont, registry = [], encoding = [], defaultChar = 0\<rparr> = Return (g, r)"
    and c: "chars_loop (findCharmap (registry g @ ''-'' @ encoding g)) r
           \<lparr>st_f = (g_f g)\<lparr>FEncoding := registry g @ ''-'' @ encoding g,
                    DefaultChar := charToRune (registry g @ ''-'' @ encoding g) (defaultChar g)\<rparr>,
            st_char = - 1, st_row = - 1, st_inBitmap = False\<rparr> = Return st"
    by (rule Parse_lines_ReturnD)
  from globals_loop_cut [OF g] show ?thesis
  proof
    assume "\<exists>rest'. globals_loop pre \<lparr>g_f = initFont, registry = [], encoding = [], defaultChar = 0\<rparr>
              = Return (g, rest') \<and> r = rest' @ post"
    then obtain rest' where
      g': "globals_loop pre \<lparr>g_f = initFont, registry = [], encoding = [], defaultChar = 0\<rparr>
              = Return (g, rest')" and r: "r = rest' @ post" by blast
    from c r obtain st' where
      "chars_loop (findCharmap (registry g @ ''-'' @ encoding g)) rest'
           \<lparr>st_f = (g_f g)\<lparr>FEncoding := registry g @ ''-'' @ encoding g,
                    DefaultChar := charToRune (registry g @ ''-'' @ encoding g) (defaultChar g)\<rparr>,
            st_char = - 1, st_row = - 1, st_inBitmap = False\<rparr> = Return st'"
      by (auto simp: chars_loop_append bind_eq_Return)
    from Parse_lines_ReturnI [OF g' this] show ?thesis by blast
  next
    assume "\<exists>g''. globals_loop pre \<lparr>g_f = initFont, registry = [], encoding = [], defaultChar = 0\<rparr>
              = Return (g'', [])"
    then obtain g'' where
      g': "globals_loop pre \<lparr>g_f = initFont, registry = [], encoding = [], defaultChar = 0\<rparr>
              = Return (g'', [])" by blast
    have "chars_loop (findCharmap (registry g'' @ ''-'' @ encoding g'')) []
           \<lparr>st_f = (g_f g'')\<lparr>FEncoding := registry g'' @ ''-'' @ encoding g'',
                    DefaultChar := charToRune (registry g'' @ ''-'' @ encoding g'') (defaultChar g'')\<rparr>,
            st_char = - 1, st_row = - 1, st_inBitmap = False\<rparr>
          = Return \<lparr>st_f = (g_f g'')\<lparr>FEncoding := registry g'' @ ''-'' @ encoding g'',
                    DefaultChar := charToRune (registry g'' @ ''-'' @ encoding g'') (defaultChar g'')\<rparr>,
            st_char = - 1, st_row = - 1, st_inBitmap = False\<rparr>"
      by simp
    from Parse_lines_ReturnI [OF g' this] show ?thesis by blast
  qed
qed


subsection \<open>The outcome of a malformed line, and the slots of the glyphs\<close>

lemma bind_component_ok: "i < length cs \<Longrightarrow> bind (component cs i) K = K (cs ! i)"
  by (simp add: component_def)

lemma bind_component_missing:
  "length cs \<le> i \<Longrightarrow> bind (component cs i) K = Panic IndexOutOfRange"
  by (simp add: component_def)

lemma bind_atoi_ok: "snd (Atoi s) = None \<Longrightarrow> bind (atoi s) K = K (fst (Atoi s))"
  by (cases "Atoi s") (simp add: atoi_def)

lemma bind_atoi_bad:
  "snd (Atoi s) \<noteq> None \<Longrightarrow> bind (atoi s) K = Fail (the (snd (Atoi s)))"
  by (cases "Atoi s") (auto simp: atoi_def)

lemma Atoi_the_error:
  "snd (Atoi s) \<noteq> None \<Longrightarrow> \<exists>k. the (snd (Atoi s)) = NumError ''Atoi'' s k"
  using Atoi_error [of s "fst (Atoi s)" "the (snd (Atoi s))"]
  by (cases "Atoi s") auto

lemmas problem_simps =
  first_problem_def int_fields_def min_fields_def global_keywords_def glyph_keywords_def
  bind_component_ok bind_component_missing bind_atoi_ok bind_atoi_bad

lemma global_line_Missing:
  assumes "cs ! 0 \<in> set global_keywords" and "first_problem cs = Some (Missing i)"
  shows "global_line cs g = Panic IndexOutOfRange"
  using assms
  by (auto simp: global_line_def Let_def problem_simps split: if_splits)

lemma global_line_NotInteger:
  assumes "cs ! 0 \<in> set global_keywords" and "first_problem cs = Some (NotInteger i)"
  shows "global_line cs g = Fail (the (snd (Atoi (cs ! i))))"
  using assms
  by (auto simp: global_line_def Let_def problem_simps split: if_splits)

lemma with_char_valid:
  "0 \<le> st_char st \<Longrightarrow> st_char st < int (length (Characters (st_f st))) \<Longrightarrow>
   bind (with_char st upd) K =
     K (st\<lparr>st_f := (st_f st)\<lparr>Characters :=
             (Characters (st_f st))[nat (st_char st) :=
                upd (Characters (st_f st) ! nat (st_char st))]\<rparr>\<rparr>)"
  by (simp add: with_char_def)

lemma with_char_invalid:
  "st_char st < 0 \<or> int (length (Characters (st_f st))) \<le> st_char st \<Longrightarrow>
   bind (with_char st upd) K = Panic IndexOutOfRange"
  by (auto simp: with_char_def)

lemma with_char_Panic:
  "st_char st < 0 \<or> int (length (Characters (st_f st))) \<le> st_char st \<Longrightarrow>
   with_char st upd = Panic IndexOutOfRange"
  by (auto simp: with_char_def)

lemma bind_with_char_Panic:
  assumes "\<And>st1. K st1 = Panic IndexOutOfRange"
  shows "bind (with_char st upd) K = Panic IndexOutOfRange"
  using assms by (auto simp: with_char_def)

lemma meta_line_Missing:
  assumes "cs ! 0 \<in> set glyph_keywords" and "first_problem cs = Some (Missing i)"
  shows "meta_line cm cs st = Panic IndexOutOfRange"
  using assms
  by (auto simp: meta_line_def Let_def problem_simps bind_with_char_Panic split: if_splits)

lemma meta_line_NotInteger:
  assumes "cs ! 0 \<in> set glyph_keywords" and "first_problem cs = Some (NotInteger i)"
    and "cs ! 0 = ''DWIDTH'' \<longrightarrow>
           0 \<le> st_char st \<and> st_char st < int (length (Characters (st_f st)))"
  shows "meta_line cm cs st = Fail (the (snd (Atoi (cs ! i))))"
  using assms
  by (auto simp: meta_line_def Let_def problem_simps with_char_valid split: if_splits)

lemma meta_line_DWIDTH_no_glyph:
  assumes "cs ! 0 = ''DWIDTH''" and "first_problem cs = Some (NotInteger i)"
    and "st_char st < 0 \<or> int (length (Characters (st_f st))) \<le> st_char st"
  shows "meta_line cm cs st = Panic IndexOutOfRange"
  using assms
  by (auto simp: meta_line_def Let_def problem_simps with_char_invalid split: if_splits)

lemma first_problem_in_Missing:
  "first_problem_in cs ps = Some (Missing i) \<Longrightarrow> length cs \<le> i \<and> i < min_fields (cs ! 0)"
  by (induction ps) (auto split: if_splits)

lemma first_problem_in_NotInteger:
  "first_problem_in cs ps = Some (NotInteger i) \<Longrightarrow>
     i < length cs \<and> i \<in> set (int_fields (cs ! 0)) \<and> snd (Atoi (cs ! i)) \<noteq> None"
  by (induction ps) (auto split: if_splits)

lemma first_problem_malformed: "first_problem cs = Some p \<Longrightarrow> malformed cs"
proof (cases p)
  case (NotInteger i)
  assume "first_problem cs = Some p"
  with NotInteger first_problem_in_NotInteger [of cs "[1, 2, 3, 4]" i] show ?thesis
    unfolding malformed_def first_problem_def list_ex_iff by blast
next
  case (Missing i)
  assume "first_problem cs = Some p"
  with Missing first_problem_in_Missing [of cs "[1, 2, 3, 4]" i] show ?thesis
    unfolding malformed_def first_problem_def by simp
qed

lemma globals_loop_no_CHARS:
  assumes "globals_loop ls g = Return (g', rest)"
    and "\<forall>x\<in>set ls. keyword x \<noteq> ''CHARS''"
  shows "rest = []"
  using assms
proof (induction ls arbitrary: g)
  case Nil
  then show ?case by simp
next
  case (Cons l ls)
  from Cons.prems(1) obtain brk g1 where
    step: "global_line (Split l) g = Return (brk, g1)"
    and rest: "if brk then rest = ls else globals_loop ls g1 = Return (g', rest)"
    by (auto split: result.splits if_splits)
  from global_line_Return(1) [OF step] Cons.prems(2) have "\<not> brk"
    by (simp add: keyword_def)
  with rest Cons.IH [of g1] Cons.prems(2) show ?case by simp
qed

lemma globals_loop_break:
  assumes "\<forall>x\<in>set hdr. keyword x \<noteq> ''CHARS''" and "keyword c = ''CHARS''"
    and "globals_loop (hdr @ c # ls1) g0 = Return (g, r)"
  shows "r = ls1" and "globals_loop (hdr @ c # ls2) g0 = Return (g, ls2)"
proof -
  from assms(3) globals_loop_prefix [OF assms(1)] obtain g1 r1 where
    h: "globals_loop hdr g0 = Return (g1, r1)"
    and "globals_loop (c # ls1) g1 = Return (g, r)"
    by (auto simp: bind_eq_Return)
  then obtain brk g2 where
    step: "global_line (Split c) g1 = Return (brk, g2)"
    and after: "if brk then g = g2 \<and> r = ls1 else globals_loop ls1 g2 = Return (g, r)"
    by (auto split: result.splits if_splits)
  from global_line_Return(1) [OF step] assms(2) have brk by (simp add: keyword_def)
  with after show "r = ls1" by simp
  from \<open>brk\<close> after step have "globals_loop (c # ls2) g1 = Return (g, ls2)" by simp
  with h globals_loop_prefix [OF assms(1), of "c # ls2" g0]
  show "globals_loop (hdr @ c # ls2) g0 = Return (g, ls2)" by simp
qed

text \<open>The second loop starts from the same state whatever lines follow the \<^verbatim>\<open>CHARS\<close> line.\<close>

lemma Parse_lines_glyph_section:
  assumes "\<forall>x\<in>set hdr. keyword x \<noteq> ''CHARS''" and "keyword c = ''CHARS''"
    and "Parse_lines (hdr @ c # ls1) = Return f"
  obtains st0 where "st_char st0 = - 1" and "\<not> st_inBitmap st0"
    and "CharMap (st_f st0) = Map.empty"
    and "\<forall>ls2. Parse_lines (hdr @ c # ls2) =
           (case chars_loop (findCharmap (FEncoding (st_f st0))) ls2 st0 of
              Return st \<Rightarrow> Return (st_f st) | Fail e \<Rightarrow> Fail e | Panic p \<Rightarrow> Panic p)"
proof -
  from assms(3) obtain g r st where
    g: "globals_loop (hdr @ c # ls1)
          \<lparr>g_f = initFont, registry = [], encoding = [], defaultChar = 0\<rparr> = Return (g, r)"
    by (rule Parse_lines_ReturnD)
  let ?st0 = "\<lparr>st_f = (g_f g)\<lparr>FEncoding := registry g @ ''-'' @ encoding g,
                    DefaultChar := charToRune (registry g @ ''-'' @ encoding g) (defaultChar g)\<rparr>,
            st_char = - 1, st_row = - 1, st_inBitmap = False\<rparr>"
  from globals_loop_CharMap [OF g] have m: "CharMap (st_f ?st0) = Map.empty"
    by (simp add: initFont_def)
  have "Parse_lines (hdr @ c # ls2) =
           (case chars_loop (findCharmap (FEncoding (st_f ?st0))) ls2 ?st0 of
              Return st \<Rightarrow> Return (st_f st) | Fail e \<Rightarrow> Fail e | Panic p \<Rightarrow> Panic p)" for ls2
    using globals_loop_break(2) [OF assms(1,2) g, of ls2]
    by (simp add: Parse_lines_def parseGlobalsAndProperties_def Let_def)
  then have a: "\<forall>ls2. Parse_lines (hdr @ c # ls2) =
           (case chars_loop (findCharmap (FEncoding (st_f ?st0))) ls2 ?st0 of
              Return st \<Rightarrow> Return (st_f st) | Fail e \<Rightarrow> Fail e | Panic p \<Rightarrow> Panic p)"
    by (rule allI)
  show thesis
  proof (rule that)
    show "st_char ?st0 = - 1" by simp
    show "\<not> st_inBitmap ?st0" by simp
    show "CharMap (st_f ?st0) = Map.empty" by (rule m)
    show "\<forall>ls2. Parse_lines (hdr @ c # ls2) =
           (case chars_loop (findCharmap (FEncoding (st_f ?st0))) ls2 ?st0 of
              Return st \<Rightarrow> Return (st_f st) | Fail e \<Rightarrow> Fail e | Panic p \<Rightarrow> Panic p)"
      by (rule a)
  qed
qed

lemma meta_line_mode:
  assumes "meta_line cm cs st = Return st'"
  shows "st_inBitmap st' = (st_inBitmap st \<or> cs ! 0 = ''BITMAP'')"
  using assms
  by (auto simp: meta_line_def Let_def bind_eq_Return component_eq_Return with_char_eq_Return
           split: if_splits)

lemma bitmap_line_mode:
  assumes "bitmap_line l cs st = Return st'" and "st_inBitmap st"
  shows "st_inBitmap st' = (cs ! 0 \<noteq> ''ENDCHAR'')"
  using assms
  by (auto simp: bitmap_line_def Let_def bind_eq_Return with_char_eq_Return
           split: if_splits sum.splits option.splits)

lemma parse_line_mode:
  assumes "parse_line cm l st = Return st'"
  shows "st_inBitmap st' =
           (if st_inBitmap st then keyword l \<noteq> ''ENDCHAR'' else keyword l = ''BITMAP'')"
  using assms meta_line_mode [of cm "Split l" st st'] bitmap_line_mode [of l "Split l" st st']
  by (auto simp: parse_line_def keyword_def split: if_splits)

lemma chars_loop_mode:
  assumes "chars_loop cm ls st = Return st'"
  shows "st_inBitmap st' = bitmap_mode (st_inBitmap st) ls"
  using assms
proof (induction ls arbitrary: st)
  case Nil
  then show ?case by simp
next
  case (Cons l ls)
  from Cons.prems obtain st1 where
    step: "parse_line cm l st = Return st1" and rest: "chars_loop cm ls st1 = Return st'"
    by (auto split: result.splits)
  from Cons.IH [OF rest] parse_line_mode [OF step] show ?case by simp
qed

text \<open>The state in which the second loop reads a line of the glyph section.\<close>

lemma glyph_line_reached:
  assumes hdr: "\<forall>x\<in>set hdr. keyword x \<noteq> ''CHARS''" and c: "keyword c = ''CHARS''"
    and parse: "Parse_lines (hdr @ c # pre) = Return f0"
  obtains cm st1 where
      "\<forall>l post. Parse_lines (hdr @ c # pre @ l # post) =
           (case parse_line cm l st1 of
              Return st' \<Rightarrow>
                (case chars_loop cm post st' of
                   Return st \<Rightarrow> Return (st_f st) | Fail e \<Rightarrow> Fail e | Panic p \<Rightarrow> Panic p)
            | Fail e \<Rightarrow> Fail e | Panic p \<Rightarrow> Panic p)"
    and "st_inBitmap st1 = bitmap_mode False pre"
    and "st_char st1 = int (length (filter (\<lambda>x. keyword x = ''STARTCHAR'') pre)) - 1"
    and "(\<exists>x\<in>set pre. keyword x = ''STARTCHAR'') \<longrightarrow>
          st_char st1 < int (length (Characters (st_f st1)))"
proof -
  from hdr c parse obtain st0 where
    s0: "st_char st0 = - 1" "\<not> st_inBitmap st0" "CharMap (st_f st0) = Map.empty"
    and P: "\<forall>ls2. Parse_lines (hdr @ c # ls2) =
           (case chars_loop (findCharmap (FEncoding (st_f st0))) ls2 st0 of
              Return st \<Rightarrow> Return (st_f st) | Fail e \<Rightarrow> Fail e | Panic p \<Rightarrow> Panic p)"
    by (rule Parse_lines_glyph_section)
  let ?cm = "findCharmap (FEncoding (st_f st0))"
  from P have "Parse_lines (hdr @ c # pre) =
           (case chars_loop ?cm pre st0 of
              Return st \<Rightarrow> Return (st_f st) | Fail e \<Rightarrow> Fail e | Panic p \<Rightarrow> Panic p)"
    by (rule spec)
  with parse obtain st1 where p1: "chars_loop ?cm pre st0 = Return st1"
    by (cases "chars_loop ?cm pre st0") simp_all
  have "Parse_lines (hdr @ c # pre @ l # post) =
           (case parse_line ?cm l st1 of
              Return st' \<Rightarrow>
                (case chars_loop ?cm post st' of
                   Return st \<Rightarrow> Return (st_f st) | Fail e \<Rightarrow> Fail e | Panic p \<Rightarrow> Panic p)
            | Fail e \<Rightarrow> Fail e | Panic p \<Rightarrow> Panic p)" for l post
  proof -
    from P have "Parse_lines (hdr @ c # pre @ l # post) =
           (case chars_loop ?cm (pre @ l # post) st0 of
              Return st \<Rightarrow> Return (st_f st) | Fail e \<Rightarrow> Fail e | Panic p \<Rightarrow> Panic p)"
      by (rule spec)
    also have "chars_loop ?cm (pre @ l # post) st0 = chars_loop ?cm (l # post) st1"
      by (simp only: chars_loop_append p1 bind.simps)
    finally show ?thesis
      by (cases "parse_line ?cm l st1") simp_all
  qed
  then have A: "\<forall>l post. Parse_lines (hdr @ c # pre @ l # post) =
           (case parse_line ?cm l st1 of
              Return st' \<Rightarrow>
                (case chars_loop ?cm post st' of
                   Return st \<Rightarrow> Return (st_f st) | Fail e \<Rightarrow> Fail e | Panic p \<Rightarrow> Panic p)
            | Fail e \<Rightarrow> Fail e | Panic p \<Rightarrow> Panic p)"
    by (intro allI)
  from chars_loop_mode [OF p1] s0 have B: "st_inBitmap st1 = bitmap_mode False pre"
    by simp
  from chars_loop_Return [OF p1] s0
  have C: "st_char st1 = int (length (filter (\<lambda>x. keyword x = ''STARTCHAR'') pre)) - 1"
    and D: "(\<exists>x\<in>set pre. keyword x = ''STARTCHAR'') \<longrightarrow>
          st_char st1 < int (length (Characters (st_f st1)))"
    by auto
  from A B C D show thesis
    by (rule that)
qed

lemma bitmap_line_glyph_keyword_error:
  assumes "keyword l \<in> set glyph_keywords"
  shows "\<exists>e. DecodeString l = Inl e \<and> bitmap_line l (Split l) st = Fail e"
proof -
  from assms have "\<exists>e. DecodeString l = Inl e"
    using DecodeString_STARTCHAR [of l] DecodeString_ENCODING [of l]
      DecodeString_DWIDTH [of l] DecodeString_BBX [of l]
    by (auto simp: glyph_keywords_def)
  moreover from assms have "Split l ! 0 \<noteq> ''ENDCHAR''"
    by (auto simp: glyph_keywords_def keyword_def)
  ultimately show ?thesis
    by (auto simp: bitmap_line_def)
qed

lemma global_problem_lines:
  assumes pre: "\<forall>x\<in>set pre. keyword x \<noteq> ''CHARS''"
    and kw: "keyword l \<in> set global_keywords"
    and parse: "Parse_lines pre = Return f0"
  shows "first_problem (Split l) = Some (Missing i) \<Longrightarrow>
           Parse_lines (pre @ l # post) = Panic IndexOutOfRange"
    and "first_problem (Split l) = Some (NotInteger i) \<Longrightarrow>
           \<exists>k. Parse_lines (pre @ l # post) = Fail (NumError ''Atoi'' (Split l ! i) k)"
proof -
  from parse obtain g r where
    g: "globals_loop pre \<lparr>g_f = initFont, registry = [], encoding = [], defaultChar = 0\<rparr>
          = Return (g, r)"
    by (rule Parse_lines_ReturnD)
  have step: "globals_loop (pre @ l # post)
                \<lparr>g_f = initFont, registry = [], encoding = [], defaultChar = 0\<rparr>
              = globals_loop (l # post) g"
    using globals_loop_prefix [OF pre, of "l # post"] g by simp
  {
    assume "first_problem (Split l) = Some (Missing i)"
    from global_line_Missing [OF _ this, of g] kw
    have "global_line (Split l) g = Panic IndexOutOfRange" by (simp add: keyword_def)
    with step show "Parse_lines (pre @ l # post) = Panic IndexOutOfRange"
      by (simp add: Parse_lines_def parseGlobalsAndProperties_def)
  }
  {
    assume p: "first_problem (Split l) = Some (NotInteger i)"
    from global_line_NotInteger [OF _ this, of g] kw
    have "global_line (Split l) g = Fail (the (snd (Atoi (Split l ! i))))"
      by (simp add: keyword_def)
    with step have "Parse_lines (pre @ l # post) = Fail (the (snd (Atoi (Split l ! i))))"
      by (simp add: Parse_lines_def parseGlobalsAndProperties_def)
    moreover from p have "snd (Atoi (Split l ! i)) \<noteq> None"
      by (auto simp: first_problem_def split: if_splits)
    ultimately show "\<exists>k. Parse_lines (pre @ l # post) = Fail (NumError ''Atoi'' (Split l ! i) k)"
      using Atoi_the_error [of "Split l ! i"] by auto
  }
qed

lemma glyph_problem_lines:
  assumes hdr: "\<forall>x\<in>set hdr. keyword x \<noteq> ''CHARS''" and c: "keyword c = ''CHARS''"
    and kw: "keyword l \<in> set glyph_keywords"
    and parse: "Parse_lines (hdr @ c # pre) = Return f0"
  shows "bitmap_mode False pre \<Longrightarrow>
           \<exists>e. DecodeString l = Inl e \<and> Parse_lines (hdr @ c # pre @ l # post) = Fail e"
    and "\<not> bitmap_mode False pre \<Longrightarrow> first_problem (Split l) = Some (Missing i) \<Longrightarrow>
           Parse_lines (hdr @ c # pre @ l # post) = Panic IndexOutOfRange"
    and "\<not> bitmap_mode False pre \<Longrightarrow> first_problem (Split l) = Some (NotInteger i) \<Longrightarrow>
           keyword l = ''DWIDTH'' \<longrightarrow> (\<exists>x\<in>set pre. keyword x = ''STARTCHAR'') \<Longrightarrow>
           \<exists>k. Parse_lines (hdr @ c # pre @ l # post) = Fail (NumError ''Atoi'' (Split l ! i) k)"
    and "\<not> bitmap_mode False pre \<Longrightarrow> first_problem (Split l) = Some (NotInteger i) \<Longrightarrow>
           keyword l = ''DWIDTH'' \<Longrightarrow> \<forall>x\<in>set pre. keyword x \<noteq> ''STARTCHAR'' \<Longrightarrow>
           Parse_lines (hdr @ c # pre @ l # post) = Panic IndexOutOfRange"
proof -
  from hdr c parse obtain cm st1 where
    A: "\<forall>l post. Parse_lines (hdr @ c # pre @ l # post) =
           (case parse_line cm l st1 of
              Return st' \<Rightarrow>
                (case chars_loop cm post st' of
                   Return st \<Rightarrow> Return (st_f st) | Fail e \<Rightarrow> Fail e | Panic p \<Rightarrow> Panic p)
            | Fail e \<Rightarrow> Fail e | Panic p \<Rightarrow> Panic p)"
    and mode: "st_inBitmap st1 = bitmap_mode False pre"
    and cur: "st_char st1 = int (length (filter (\<lambda>x. keyword x = ''STARTCHAR'') pre)) - 1"
    and len: "(\<exists>x\<in>set pre. keyword x = ''STARTCHAR'') \<longrightarrow>
          st_char st1 < int (length (Characters (st_f st1)))"
    by (rule glyph_line_reached)
  from A have all: "Parse_lines (hdr @ c # pre @ l # post) =
           (case parse_line cm l st1 of
              Return st' \<Rightarrow>
                (case chars_loop cm post st' of
                   Return st \<Rightarrow> Return (st_f st) | Fail e \<Rightarrow> Fail e | Panic p \<Rightarrow> Panic p)
            | Fail e \<Rightarrow> Fail e | Panic p \<Rightarrow> Panic p)"
    by blast
  {
    assume "bitmap_mode False pre"
    with mode have "parse_line cm l st1 = bitmap_line l (Split l) st1"
      by (simp add: parse_line_def)
    with bitmap_line_glyph_keyword_error [OF kw, of st1] all
    show "\<exists>e. DecodeString l = Inl e \<and> Parse_lines (hdr @ c # pre @ l # post) = Fail e"
      by auto
  }
  {
    assume m: "\<not> bitmap_mode False pre" and p: "first_problem (Split l) = Some (Missing i)"
    from m mode have "parse_line cm l st1 = meta_line cm (Split l) st1"
      by (simp add: parse_line_def)
    moreover from kw have "Split l ! 0 \<in> set glyph_keywords" by (simp add: keyword_def)
    from meta_line_Missing [OF this p] have "meta_line cm (Split l) st1 = Panic IndexOutOfRange" .
    ultimately show "Parse_lines (hdr @ c # pre @ l # post) = Panic IndexOutOfRange"
      using all by simp
  }
  {
    assume m: "\<not> bitmap_mode False pre" and p: "first_problem (Split l) = Some (NotInteger i)"
      and d: "keyword l = ''DWIDTH'' \<longrightarrow> (\<exists>x\<in>set pre. keyword x = ''STARTCHAR'')"
    from m mode have pl: "parse_line cm l st1 = meta_line cm (Split l) st1"
      by (simp add: parse_line_def)
    have v: "Split l ! 0 = ''DWIDTH'' \<longrightarrow>
           0 \<le> st_char st1 \<and> st_char st1 < int (length (Characters (st_f st1)))"
    proof
      assume "Split l ! 0 = ''DWIDTH''"
      with d have ex: "\<exists>x\<in>set pre. keyword x = ''STARTCHAR''" by (simp add: keyword_def)
      then have "filter (\<lambda>l. keyword l = ''STARTCHAR'') pre \<noteq> []"
        by (simp add: filter_empty_conv)
      then have "0 < length (filter (\<lambda>l. keyword l = ''STARTCHAR'') pre)" by simp
      with cur len ex show "0 \<le> st_char st1 \<and> st_char st1 < int (length (Characters (st_f st1)))"
        by simp
    qed
    from kw have "Split l ! 0 \<in> set glyph_keywords" by (simp add: keyword_def)
    from meta_line_NotInteger [OF this p v]
    have "meta_line cm (Split l) st1 = Fail (the (snd (Atoi (Split l ! i))))" .
    with pl all
    have "Parse_lines (hdr @ c # pre @ l # post) = Fail (the (snd (Atoi (Split l ! i))))"
      by simp
    moreover from p have "snd (Atoi (Split l ! i)) \<noteq> None"
      by (auto simp: first_problem_def split: if_splits)
    ultimately
    show "\<exists>k. Parse_lines (hdr @ c # pre @ l # post) = Fail (NumError ''Atoi'' (Split l ! i) k)"
      using Atoi_the_error [of "Split l ! i"] by auto
  }
  {
    assume m: "\<not> bitmap_mode False pre" and p: "first_problem (Split l) = Some (NotInteger i)"
      and d: "keyword l = ''DWIDTH''" and n: "\<forall>x\<in>set pre. keyword x \<noteq> ''STARTCHAR''"
    from m mode have pl: "parse_line cm l st1 = meta_line cm (Split l) st1"
      by (simp add: parse_line_def)
    from n have "filter (\<lambda>l. keyword l = ''STARTCHAR'') pre = []"
      by (simp add: filter_empty_conv)
    with cur have "st_char st1 < 0" by simp
    then have inv: "st_char st1 < 0 \<or> int (length (Characters (st_f st1))) \<le> st_char st1" ..
    from d have "Split l ! 0 = ''DWIDTH''" by (simp add: keyword_def)
    from meta_line_DWIDTH_no_glyph [OF this p inv]
    have "meta_line cm (Split l) st1 = Panic IndexOutOfRange" .
    with pl all show "Parse_lines (hdr @ c # pre @ l # post) = Panic IndexOutOfRange"
      by simp
  }
qed

lemma map_update_same: "f x = f (xs ! i) \<Longrightarrow> map f (xs[i := x]) = map f xs"
  by (simp add: map_update) (metis list_update_id map_update)

lemma meta_line_slots:
  assumes "meta_line cm cs st = Return st'"
  shows "j \<noteq> nat (st_char st') \<Longrightarrow> Characters (st_f st') ! j = Characters (st_f st) ! j"
    and "cs ! 0 \<noteq> ''STARTCHAR'' \<Longrightarrow>
           map Name (Characters (st_f st')) = map Name (Characters (st_f st))"
    and "cs ! 0 \<noteq> ''ENCODING'' \<Longrightarrow>
           map Encoding (Characters (st_f st')) = map Encoding (Characters (st_f st))"
    and "cs ! 0 = ''STARTCHAR'' \<Longrightarrow>
           0 \<le> st_char st' \<and> Name (Characters (st_f st') ! nat (st_char st')) = cs ! 1"
    and "cs ! 0 = ''ENCODING'' \<Longrightarrow>
           Encoding (Characters (st_f st') ! nat (st_char st))
             = encoding_rune cm (fst (Atoi (cs ! 1)))"
  using assms
  by (auto simp: meta_line_def Let_def bind_eq_Return component_eq_Return with_char_eq_Return
        atoi_eq_Return map_update_same split: if_splits)

lemma bitmap_line_slots:
  assumes "bitmap_line l cs st = Return st'"
  shows "j \<noteq> nat (st_char st') \<Longrightarrow> Characters (st_f st') ! j = Characters (st_f st) ! j"
    and "map Name (Characters (st_f st')) = map Name (Characters (st_f st))"
    and "map Encoding (Characters (st_f st')) = map Encoding (Characters (st_f st))"
  using assms
  by (auto simp: bitmap_line_def Let_def bind_eq_Return with_char_eq_Return map_update_same
           split: if_splits sum.splits option.splits)

lemma parse_line_slots:
  assumes "parse_line cm l st = Return st'"
  shows "j \<noteq> nat (st_char st') \<Longrightarrow> Characters (st_f st') ! j = Characters (st_f st) ! j"
    and "keyword l \<noteq> ''STARTCHAR'' \<Longrightarrow>
           map Name (Characters (st_f st')) = map Name (Characters (st_f st))"
    and "keyword l \<noteq> ''ENCODING'' \<Longrightarrow>
           map Encoding (Characters (st_f st')) = map Encoding (Characters (st_f st))"
    and "keyword l = ''STARTCHAR'' \<Longrightarrow>
           0 \<le> st_char st' \<and> Name (Characters (st_f st') ! nat (st_char st')) = Split l ! 1"
    and "keyword l = ''ENCODING'' \<Longrightarrow>
           Encoding (Characters (st_f st') ! nat (st_char st))
             = encoding_rune cm (fst (Atoi (Split l ! 1)))"
proof -
  show "j \<noteq> nat (st_char st') \<Longrightarrow> Characters (st_f st') ! j = Characters (st_f st) ! j"
    using assms meta_line_slots(1) [of cm "Split l" st st' j]
      bitmap_line_slots(1) [of l "Split l" st st' j]
    by (auto simp: parse_line_def split: if_splits)
  show "keyword l \<noteq> ''STARTCHAR'' \<Longrightarrow>
           map Name (Characters (st_f st')) = map Name (Characters (st_f st))"
    using assms meta_line_slots(2) [of cm "Split l" st st']
      bitmap_line_slots(2) [of l "Split l" st st']
    by (auto simp: parse_line_def keyword_def split: if_splits)
  show "keyword l \<noteq> ''ENCODING'' \<Longrightarrow>
           map Encoding (Characters (st_f st')) = map Encoding (Characters (st_f st))"
    using assms meta_line_slots(3) [of cm "Split l" st st']
      bitmap_line_slots(3) [of l "Split l" st st']
    by (auto simp: parse_line_def keyword_def split: if_splits)
  show "keyword l = ''STARTCHAR'' \<Longrightarrow>
           0 \<le> st_char st' \<and> Name (Characters (st_f st') ! nat (st_char st')) = Split l ! 1"
    using assms meta_line_slots(4) [of cm "Split l" st st']
      bitmap_line_keyword [of l "Split l" st st']
    by (auto simp: parse_line_def keyword_def split: if_splits)
  show "keyword l = ''ENCODING'' \<Longrightarrow>
           Encoding (Characters (st_f st') ! nat (st_char st))
             = encoding_rune cm (fst (Atoi (Split l ! 1)))"
    using assms meta_line_slots(5) [of cm "Split l" st st']
      bitmap_line_keyword [of l "Split l" st st']
    by (auto simp: parse_line_def keyword_def split: if_splits)
qed

text \<open>A slot below the cursor is never written again.\<close>

lemma chars_loop_untouched:
  assumes "chars_loop cm ls st = Return st'" and "int j < st_char st"
  shows "Characters (st_f st') ! j = Characters (st_f st) ! j"
  using assms
proof (induction ls arbitrary: st)
  case Nil
  then show ?case by simp
next
  case (Cons l ls)
  from Cons.prems(1) obtain st1 where
    step: "parse_line cm l st = Return st1" and rest: "chars_loop cm ls st1 = Return st'"
    by (auto split: result.splits)
  from parse_line_Return(2) [OF step] Cons.prems(2) have up: "int j < st_char st1"
    by (simp split: if_splits)
  then have "j \<noteq> nat (st_char st1)" by simp
  from parse_line_slots(1) [OF step this] Cons.IH [OF rest up] show ?case by simp
qed

lemma chars_loop_Name_kept:
  assumes "chars_loop cm ls st = Return st'"
    and "\<forall>x\<in>set ls. keyword x \<noteq> ''STARTCHAR''"
  shows "map Name (Characters (st_f st')) = map Name (Characters (st_f st))"
  using assms
proof (induction ls arbitrary: st)
  case Nil
  then show ?case by simp
next
  case (Cons l ls)
  from Cons.prems(1) obtain st1 where
    step: "parse_line cm l st = Return st1" and rest: "chars_loop cm ls st1 = Return st'"
    by (auto split: result.splits)
  from parse_line_slots(2) [OF step] Cons.IH [OF rest] Cons.prems(2) show ?case by simp
qed

lemma chars_loop_Encoding_kept:
  assumes "chars_loop cm ls st = Return st'"
    and "\<forall>x\<in>set ls. keyword x \<noteq> ''ENCODING''"
  shows "map Encoding (Characters (st_f st')) = map Encoding (Characters (st_f st))"
  using assms
proof (induction ls arbitrary: st)
  case Nil
  then show ?case by simp
next
  case (Cons l ls)
  from Cons.prems(1) obtain st1 where
    step: "parse_line cm l st = Return st1" and rest: "chars_loop cm ls st1 = Return st'"
    by (auto split: result.splits)
  from parse_line_slots(3) [OF step] Cons.IH [OF rest] Cons.prems(2) show ?case by simp
qed

lemma map_eq_nth: "map f xs = map f ys \<Longrightarrow> i < length xs \<Longrightarrow> f (xs ! i) = f (ys ! i)"
  by (metis length_map nth_map)

text \<open>
  The code point that an \<^verbatim>\<open>ENCODING\<close> line stores in the slot of its glyph is still there
  at the end, when no \<^verbatim>\<open>ENCODING\<close> line follows before the next \<^verbatim>\<open>STARTCHAR\<close>.
\<close>

lemma chars_loop_closed_block:
  assumes run: "chars_loop cm (l0 # mid1 @ s1 # rest) st = Return st'"
    and l0: "keyword l0 = ''ENCODING''"
    and mid1: "\<forall>x\<in>set mid1. keyword x \<noteq> ''STARTCHAR'' \<and> keyword x \<noteq> ''ENCODING''"
    and s1: "keyword s1 = ''STARTCHAR''"
  shows "Encoding (Characters (st_f st') ! nat (st_char st))
           = encoding_rune cm (fst (Atoi (Split l0 ! 1)))"
proof -
  from run obtain stB where
    a: "parse_line cm l0 st = Return stB"
    and b: "chars_loop cm (mid1 @ s1 # rest) stB = Return st'"
    by (auto split: result.splits)
  from b obtain stC where
    c: "chars_loop cm mid1 stB = Return stC"
    and d: "chars_loop cm (s1 # rest) stC = Return st'"
    by (auto simp: chars_loop_append bind_eq_Return)
  from d obtain stD where
    e: "parse_line cm s1 stC = Return stD" and f: "chars_loop cm rest stD = Return st'"
    by (auto split: result.splits)
  let ?j = "nat (st_char st)"
  from parse_line_CharMap(1) [OF a l0]
  have valid: "0 \<le> st_char st" "st_char st < int (length (Characters (st_f st)))"
    by simp_all
  from parse_line_Return(1,2) [OF a] l0
  have B: "st_char stB = st_char st" "length (Characters (st_f stB)) = length (Characters (st_f st))"
    by simp_all
  from parse_line_slots(5) [OF a l0]
  have eB: "Encoding (Characters (st_f stB) ! ?j) = encoding_rune cm (fst (Atoi (Split l0 ! 1)))" .
  from chars_loop_Return [OF c] mid1 B
  have C: "st_char stC = st_char st" "length (Characters (st_f stC)) = length (Characters (st_f st))"
    by (simp_all add: filter_False)
  from chars_loop_Encoding_kept [OF c] mid1
  have "map Encoding (Characters (st_f stC)) = map Encoding (Characters (st_f stB))"
    by simp
  from map_eq_nth [OF this, of ?j] valid C
  have eC: "Encoding (Characters (st_f stC) ! ?j) = Encoding (Characters (st_f stB) ! ?j)"
    by simp
  from parse_line_Return(2) [OF e] s1 C have D: "st_char stD = st_char st + 1"
    by simp
  with valid have "?j \<noteq> nat (st_char stD)" by simp
  from parse_line_slots(1) [OF e this]
  have eD: "Characters (st_f stD) ! ?j = Characters (st_f stC) ! ?j" .
  from D valid have "int ?j < st_char stD" by simp
  from chars_loop_untouched [OF f this] eD eC eB show ?thesis by simp
qed

text \<open>
  The glyph blocks fill the slots in the order of the source: the slots up to the cursor
  hold the names of the \<^verbatim>\<open>STARTCHAR\<close> lines read so far.
\<close>

lemma chars_loop_names:
  assumes "chars_loop cm ls st = Return st'" and "- 1 \<le> st_char st"
  shows "map Name (take (nat (st_char st' + 1)) (Characters (st_f st')))
           = map Name (take (nat (st_char st + 1)) (Characters (st_f st)))
             @ map (\<lambda>s. Split s ! 1) (filter (\<lambda>x. keyword x = ''STARTCHAR'') ls)"
  using assms
proof (induction ls arbitrary: st)
  case Nil
  then show ?case by simp
next
  case (Cons l ls)
  from Cons.prems(1) obtain st1 where
    step: "parse_line cm l st = Return st1" and rest: "chars_loop cm ls st1 = Return st'"
    by (auto split: result.splits)
  from parse_line_Return(2) [OF step] Cons.prems(2) have up: "- 1 \<le> st_char st1"
    by (simp split: if_splits)
  note ih = Cons.IH [OF rest up]
  show ?case
  proof (cases "keyword l = ''STARTCHAR''")
    case False
    from parse_line_Return(2) [OF step] False have "st_char st1 = st_char st" by simp
    moreover from parse_line_slots(2) [OF step False]
    have "map Name (take n (Characters (st_f st1))) = map Name (take n (Characters (st_f st)))" for n
      by (simp add: take_map [symmetric])
    ultimately show ?thesis using ih False by simp
  next
    case True
    let ?k = "nat (st_char st + 1)"
    from parse_line_Return(1,2,3) [OF step] True
    have c1: "st_char st1 = st_char st + 1"
      and len: "length (Characters (st_f st1)) = length (Characters (st_f st))"
      and lt: "st_char st + 1 < int (length (Characters (st_f st)))"
      by simp_all
    from lt Cons.prems(2) have k: "?k < length (Characters (st_f st1))"
      using len by simp
    have low: "take ?k (Characters (st_f st1)) = take ?k (Characters (st_f st))"
    proof (rule nth_take_lemma)
      show "?k \<le> length (Characters (st_f st1))" using k by simp
      show "?k \<le> length (Characters (st_f st))" using k len by simp
      fix i
      show "i < ?k \<longrightarrow> Characters (st_f st1) ! i = Characters (st_f st) ! i"
      proof
        assume "i < ?k"
        with c1 have "i \<noteq> nat (st_char st1)" by simp
        from parse_line_slots(1) [OF step this]
        show "Characters (st_f st1) ! i = Characters (st_f st) ! i" .
      qed
    qed
    from parse_line_slots(4) [OF step True] c1
    have nm: "Name (Characters (st_f st1) ! ?k) = Split l ! 1" by simp
    from Cons.prems(2) c1 have "nat (st_char st1 + 1) = Suc ?k" by simp
    then have "map Name (take (nat (st_char st1 + 1)) (Characters (st_f st1)))
             = map Name (take ?k (Characters (st_f st))) @ [Split l ! 1]"
      using k low nm by (simp add: take_Suc_conv_app_nth)
    with ih True show ?thesis by simp
  qed
qed

lemma Parse_lines_chars:
  assumes hdr: "\<forall>x\<in>set hdr. keyword x \<noteq> ''CHARS''" and c: "keyword c = ''CHARS''"
    and parse: "Parse_lines (hdr @ c # ls) = Return f"
  obtains st0 st where "st_char st0 = - 1" and "\<not> st_inBitmap st0"
    and "chars_loop (findCharmap (FEncoding f)) ls st0 = Return st" and "f = st_f st"
proof -
  from hdr c parse obtain st0 where
    s0: "st_char st0 = - 1" "\<not> st_inBitmap st0" "CharMap (st_f st0) = Map.empty"
    and P: "\<forall>ls2. Parse_lines (hdr @ c # ls2) =
           (case chars_loop (findCharmap (FEncoding (st_f st0))) ls2 st0 of
              Return st \<Rightarrow> Return (st_f st) | Fail e \<Rightarrow> Fail e | Panic p \<Rightarrow> Panic p)"
    by (rule Parse_lines_glyph_section)
  let ?cm = "findCharmap (FEncoding (st_f st0))"
  from P have "Parse_lines (hdr @ c # ls) =
           (case chars_loop ?cm ls st0 of
              Return st \<Rightarrow> Return (st_f st) | Fail e \<Rightarrow> Fail e | Panic p \<Rightarrow> Panic p)"
    by (rule spec)
  with parse obtain st where r: "chars_loop ?cm ls st0 = Return st" and f: "f = st_f st"
    by (cases "chars_loop ?cm ls st0") simp_all
  from chars_loop_Return [OF r] f have "FEncoding f = FEncoding (st_f st0)" by simp
  with r have "chars_loop (findCharmap (FEncoding f)) ls st0 = Return st" by simp
  from s0(1,2) this f show thesis by (rule that)
qed

lemma glyph_names_lines:
  assumes hdr: "\<forall>x\<in>set hdr. keyword x \<noteq> ''CHARS''" and c: "keyword c = ''CHARS''"
    and parse: "Parse_lines (hdr @ c # ls) = Return f"
  shows "map Name (take (length (filter (\<lambda>x. keyword x = ''STARTCHAR'') ls)) (Characters f))
           = map (\<lambda>s. Split s ! 1) (filter (\<lambda>x. keyword x = ''STARTCHAR'') ls)"
proof -
  from hdr c parse obtain st0 st where
    s0: "st_char st0 = - 1"
    and r: "chars_loop (findCharmap (FEncoding f)) ls st0 = Return st" and f: "f = st_f st"
    by (rule Parse_lines_chars)
  from chars_loop_Return [OF r] s0
  have "nat (st_char st + 1) = length (filter (\<lambda>x. keyword x = ''STARTCHAR'') ls)"
    by simp
  with chars_loop_names [OF r] s0 f show ?thesis by simp
qed

lemma earlier_glyph_lines:
  assumes hdr: "\<forall>x\<in>set hdr. keyword x \<noteq> ''CHARS''" and c: "keyword c = ''CHARS''"
    and parse: "Parse_lines (hdr @ c # pre0 @ s0 # mid0 @ l0 # mid1 @ s1 # rest) = Return f"
    and s0: "keyword s0 = ''STARTCHAR''"
    and mid0: "\<forall>x\<in>set mid0. keyword x \<noteq> ''STARTCHAR''"
    and l0: "keyword l0 = ''ENCODING''"
    and mid1: "\<forall>x\<in>set mid1. keyword x \<noteq> ''STARTCHAR'' \<and> keyword x \<noteq> ''ENCODING''"
    and s1: "keyword s1 = ''STARTCHAR''"
  shows "Encoding (Characters f ! length (filter (\<lambda>x. keyword x = ''STARTCHAR'') pre0))
           = encoding_rune (findCharmap (FEncoding f)) (fst (Atoi (Split l0 ! 1)))"
    and "Name (Characters f ! length (filter (\<lambda>x. keyword x = ''STARTCHAR'') pre0))
           = Split s0 ! 1"
    and "length (filter (\<lambda>x. keyword x = ''STARTCHAR'') pre0) + 1 < length (Characters f)"
proof -
  let ?cm = "findCharmap (FEncoding f)"
  let ?j = "length (filter (\<lambda>x. keyword x = ''STARTCHAR'') pre0)"
  let ?ls = "pre0 @ s0 # mid0 @ l0 # mid1 @ s1 # rest"
  from hdr c parse obtain st0 st where
    st0: "st_char st0 = - 1"
    and r: "chars_loop ?cm ?ls st0 = Return st" and f: "f = st_f st"
    by (rule Parse_lines_chars)
  have "?ls = (pre0 @ s0 # mid0) @ (l0 # mid1 @ s1 # rest)" by simp
  with r have "bind (chars_loop ?cm (pre0 @ s0 # mid0) st0)
                 (chars_loop ?cm (l0 # mid1 @ s1 # rest)) = Return st"
    by (simp only: chars_loop_append)
  then obtain stA where
    a: "chars_loop ?cm (pre0 @ s0 # mid0) st0 = Return stA"
    and b: "chars_loop ?cm (l0 # mid1 @ s1 # rest) stA = Return st"
    by (auto simp: bind_eq_Return)
  from mid0 have "filter (\<lambda>x. keyword x = ''STARTCHAR'') mid0 = []"
    by (simp add: filter_empty_conv)
  with chars_loop_Return [OF a] st0 s0 have A: "st_char stA = int ?j"
    by simp
  from chars_loop_closed_block [OF b l0 mid1 s1] A f
  show "Encoding (Characters f ! ?j) = encoding_rune ?cm (fst (Atoi (Split l0 ! 1)))"
    by simp
  define names where "names = filter (\<lambda>x. keyword x = ''STARTCHAR'') ?ls"
  define tl0 where "tl0 = filter (\<lambda>x. keyword x = ''STARTCHAR'') (l0 # mid1 @ s1 # rest)"
  from mid0 have "filter (\<lambda>x. keyword x = ''STARTCHAR'') mid0 = []"
    by (simp add: filter_empty_conv)
  then have n: "names = filter (\<lambda>x. keyword x = ''STARTCHAR'') pre0 @ s0 # tl0"
    unfolding names_def tl0_def using s0 by (simp only: filter_append filter.simps) simp
  have "s1 \<in> set tl0"
    unfolding tl0_def using s1 by simp
  then have "0 < length tl0"
    by (rule length_pos_if_in_set)
  with n have big: "?j + 1 < length names"
    by simp
  have "s0 \<in> set ?ls" by simp
  with s0 have ex: "\<exists>x\<in>set ?ls. keyword x = ''STARTCHAR''" by blast
  note i = chars_loop_Return [OF r]
  from i have i1: "length (Characters (st_f st)) = length (Characters (st_f st0))"
    by (rule conjunct1)
  from i have i2: "st_char st = st_char st0 + int (length names)"
    unfolding names_def by (elim conjE)
  from i have "(\<exists>x\<in>set ?ls. keyword x = ''STARTCHAR'') \<longrightarrow>
           st_char st < int (length (Characters (st_f st0)))"
    by (elim conjE)
  with ex have i3: "st_char st < int (length (Characters (st_f st0)))" by (rule rev_mp)
  from i1 i2 i3 st0 f have le: "length names \<le> length (Characters f)"
    by simp
  with big show "?j + 1 < length (Characters f)" by simp
  from big have jlt: "?j < length names" by simp
  from glyph_names_lines [OF hdr c parse]
  have "map Name (take (length names) (Characters f)) = map (\<lambda>s. Split s ! 1) names"
    unfolding names_def .
  then have "map Name (take (length names) (Characters f)) ! ?j
               = map (\<lambda>s. Split s ! 1) names ! ?j"
    by simp
  moreover have "map (\<lambda>s. Split s ! 1) names ! ?j = Split s0 ! 1"
    by (simp add: n nth_append)
  moreover have "map Name (take (length names) (Characters f)) ! ?j = Name (Characters f ! ?j)"
    using jlt le by simp
  ultimately show "Name (Characters f ! ?j) = Split s0 ! 1" by simp
qed

lemma global_line_DEFAULT_CHAR:
  assumes "global_line cs g = Return (brk, g')" and "cs ! 0 = ''DEFAULT_CHAR''"
  shows "defaultChar g' = fst (Atoi (cs ! 1))"
  using assms
  by (auto simp: global_line_def Let_def bind_eq_Return component_eq_Return atoi_eq_Return
           split: if_splits)

lemma DEFAULT_CHAR_lines:
  assumes parse: "Parse_lines (h1 @ d # h2) = Return f"
    and h1: "\<forall>x\<in>set h1. keyword x \<noteq> ''CHARS''"
    and d: "keyword d = ''DEFAULT_CHAR''"
    and h2: "\<forall>x\<in>set h2. keyword x \<noteq> ''DEFAULT_CHAR''"
  shows "DefaultChar f = charToRune (FEncoding f) (fst (Atoi (Split d ! 1)))"
proof -
  from parse obtain g r st where
    g: "globals_loop (h1 @ d # h2)
          \<lparr>g_f = initFont, registry = [], encoding = [], defaultChar = 0\<rparr> = Return (g, r)"
    and ch: "chars_loop (findCharmap (registry g @ ''-'' @ encoding g)) r
           \<lparr>st_f = (g_f g)\<lparr>FEncoding := registry g @ ''-'' @ encoding g,
                    DefaultChar := charToRune (registry g @ ''-'' @ encoding g) (defaultChar g)\<rparr>,
            st_char = - 1, st_row = - 1, st_inBitmap = False\<rparr> = Return st"
    and f: "f = st_f st"
    by (rule Parse_lines_ReturnD)
  from g globals_loop_prefix [OF h1] obtain g1 where
    "globals_loop (d # h2) g1 = Return (g, r)"
    by (auto simp: bind_eq_Return)
  then obtain brk g2 where
    step: "global_line (Split d) g1 = Return (brk, g2)"
    and after: "if brk then g = g2 \<and> r = h2 else globals_loop h2 g2 = Return (g, r)"
    by (auto split: result.splits if_splits)
  from global_line_Return(1) [OF step] d have "\<not> brk" by (simp add: keyword_def)
  with after have "globals_loop h2 g2 = Return (g, r)" by simp
  from globals_loop_defaultChar [OF this h2] global_line_DEFAULT_CHAR [OF step] d
  have "defaultChar g = fst (Atoi (Split d ! 1))" by (simp add: keyword_def)
  with chars_loop_Return [OF ch] f show ?thesis by simp
qed

lemma ENCODING_field_lines:
  assumes hdr: "\<forall>x\<in>set hdr. keyword x \<noteq> ''CHARS''" and c: "keyword c = ''CHARS''"
    and parse: "Parse_lines (hdr @ c # pre @ l # post) = Return f"
    and l: "keyword l = ''ENCODING''"
    and post: "\<forall>x\<in>set post. keyword x \<noteq> ''ENCODING''"
  shows "Encoding (Characters f ! (length (filter (\<lambda>x. keyword x = ''STARTCHAR'') pre) - 1))
           = encoding_rune (findCharmap (FEncoding f)) (fst (Atoi (Split l ! 1)))"
proof -
  let ?cm = "findCharmap (FEncoding f)"
  from hdr c parse obtain st0 st where
    st0: "st_char st0 = - 1"
    and r: "chars_loop ?cm (pre @ l # post) st0 = Return st" and f: "f = st_f st"
    by (rule Parse_lines_chars)
  from r obtain st1 where
    p1: "chars_loop ?cm pre st0 = Return st1"
    and p2: "chars_loop ?cm (l # post) st1 = Return st"
    by (auto simp: chars_loop_append bind_eq_Return)
  from p2 obtain st2 where
    s: "parse_line ?cm l st1 = Return st2" and p3: "chars_loop ?cm post st2 = Return st"
    by (auto split: result.splits)
  from parse_line_CharMap(1) [OF s l]
  have k: "0 \<le> st_char st1" "st_char st1 < int (length (Characters (st_f st1)))"
    by simp_all
  from chars_loop_Return [OF p1] st0
  have n: "nat (st_char st1) = length (filter (\<lambda>x. keyword x = ''STARTCHAR'') pre) - 1"
    by simp
  from parse_line_Return(1) [OF s] k
  have "nat (st_char st1) < length (Characters (st_f st2))" by simp
  moreover from chars_loop_Return [OF p3]
  have "length (Characters (st_f st)) = length (Characters (st_f st2))" by simp
  ultimately have "nat (st_char st1) < length (Characters (st_f st))" by simp
  from map_eq_nth [OF chars_loop_Encoding_kept [OF p3 post] this]
    parse_line_slots(5) [OF s l] n f
  show ?thesis by simp
qed

section \<open>The claims\<close>

subsection \<open>C1: more STARTCHAR blocks than declared\<close>




subsection \<open>C2: lookup\<close>

text \<open>
  C2. \<^verbatim>\<open>lookup\<close> returns the Character registered for the code point; when there is
  none, the Character registered for \<^verbatim>\<open>DefaultChar\<close>; and it returns nil exactly when
  neither the code point nor the default code point is registered. This holds for every
  Font, parsed or not.
\<close>

theorem lookup_fallback:
  "lookup f r = (case CharMap f r of Some c \<Rightarrow> Some c | None \<Rightarrow> CharMap f (DefaultChar f))
   \<and> (lookup f r = None) = (CharMap f r = None \<and> CharMap f (DefaultChar f) = None)"
  by (simp add: lookup_def split: option.splits)

theorem lookup_fallback_witness:
  "lookup (initFont\<lparr>CharMap := [32 \<mapsto> 0, 65 \<mapsto> 1]\<rparr>) 65 = Some 1
   \<and> lookup (initFont\<lparr>CharMap := [32 \<mapsto> 0, 65 \<mapsto> 1]\<rparr>) 66 = Some 0
   \<and> lookup (initFont\<lparr>CharMap := [65 \<mapsto> 1]\<rparr>) 66 = None"
  using lookup_fallback [of "initFont\<lparr>CharMap := [32 \<mapsto> 0, 65 \<mapsto> 1]\<rparr>" 65]
    lookup_fallback [of "initFont\<lparr>CharMap := [32 \<mapsto> 0, 65 \<mapsto> 1]\<rparr>" 66]
    lookup_fallback [of "initFont\<lparr>CharMap := [65 \<mapsto> 1]\<rparr>" 66]
  by (simp add: initFont_def)

subsection \<open>C3: the intensity of a sample\<close>

text \<open>
  C3, as the code has it. Let a bitmap row be decoded at a bit depth \<open>B\<close> from 1 to 8
  into the pixels of row \<open>row\<close>. For every pixel index \<open>i\<close> below the width, the stored
  intensity is \<open>v * 255 div (2 ^ B - 1)\<close>, the quotient rounded down, where \<open>v\<close> is the
  unsigned value of the \<open>B\<close> bits that start at bit \<open>i * B\<close> of the row, the most
  significant bit first. For the depths 1, 2, 4 and 8 the division is exact and the
  intensity is \<open>round (v * 255 / (2 ^ B - 1))\<close>; at depth 1 every sample is 0 or 255, and
  at depth 2 the values 0, 1, 2, 3 give 0, 85, 170, 255.
\<close>

theorem decoded_intensity:
  assumes "1 \<le> B" and "B \<le> 8"
    and "pixel_loop b B stride row 0 pix = Return pix'"
    and "0 \<le> i" and "i < stride"
  shows "unat (pix' ! nat (row * stride + i))
           = sample_value b (nat (i * B)) (nat B) * 255 div (2 ^ nat B - 1)
     \<and> (B \<in> {1, 2, 4, 8} \<longrightarrow>
          int (unat (pix' ! nat (row * stride + i)))
            = round (real (sample_value b (nat (i * B)) (nat B)) * 255 / (2 ^ nat B - 1)))
     \<and> (B = 1 \<longrightarrow> pix' ! nat (row * stride + i) \<in> {0, 255})
     \<and> (B = 2 \<longrightarrow>
          unat (pix' ! nat (row * stride + i)) = 85 * sample_value b (nat (i * B)) (nat B)
          \<and> sample_value b (nat (i * B)) (nat B) < 4)"
proof -
  let ?p = "pix' ! nat (row * stride + i)"
  let ?v = "sample_value b (nat (i * B)) (nat B)"
  from pixel_loop_result [OF assms(3) assms(1,2)] assms(4,5)
  have main: "unat ?p = ?v * 255 div (2 ^ nat B - 1)"
    by simp
  have exact: "B \<in> {1, 2, 4, 8} \<longrightarrow> int (unat ?p) = round (real ?v * 255 / (2 ^ nat B - 1))"
    using exact_scale [of B ?v] main by simp
  have one: "B = 1 \<longrightarrow> ?p \<in> {0, 255}"
  proof
    assume B: "B = 1"
    with sample_value_bound [of b "nat (i * B)" "nat B"] have "?v = 0 \<or> ?v = 1" by auto
    with main B have "unat ?p = unat (0 :: byte) \<or> unat ?p = unat (255 :: byte)" by auto
    then show "?p \<in> {0, 255}" by (simp only: word_unat_eq_iff [symmetric]) simp
  qed
  have two: "B = 2 \<longrightarrow> unat ?p = 85 * ?v \<and> ?v < 4"
    using main sample_value_bound [of b "nat (i * B)" "nat B"] by auto
  from main exact one two show ?thesis by blast
qed

theorem decoded_intensity_witness:
  "pixel_loop [0x1B] 2 4 0 0 [0, 0, 0, 0] = Return [0, 85, 170, 255]
   \<and> sample_value [0x1B] (nat (2 * 2)) (nat 2) = 2
   \<and> unat ([0, 85, 170, 255 :: byte] ! nat (0 * 4 + 2)) = 2 * 255 div (2 ^ nat 2 - 1)
   \<and> int (unat ([0, 85, 170, 255 :: byte] ! nat (0 * 4 + 2))) = round (real 2 * 255 / (2 ^ nat 2 - 1))"
proof -
  have h: "pixel_loop [0x1B] 2 4 0 0 [0, 0, 0, 0] = Return [0, 85, 170, 255]"
    by code_simp
  have s: "sample_value [0x1B] (nat (2 * 2)) (nat 2) = 2"
    by code_simp
  have "(1::int) \<le> 2" "(2::int) \<le> 8" "(0::int) \<le> 2" "(2::int) < 4"
    by simp_all
  from decoded_intensity [OF this(1,2) h this(3,4)]
  have "unat ([0, 85, 170, 255 :: byte] ! nat (0 * 4 + 2))
           = sample_value [0x1B] (nat (2 * 2)) (nat 2) * 255 div (2 ^ nat 2 - 1)"
    and "int (unat ([0, 85, 170, 255 :: byte] ! nat (0 * 4 + 2)))
            = round (real (sample_value [0x1B] (nat (2 * 2)) (nat 2)) * 255 / (2 ^ nat 2 - 1))"
    by blast+
  with h s show ?thesis by (simp only:)
qed

text \<open>
  At depth 3 the integer division of \<^verbatim>\<open>uint32(val) * 0xff / ((1 << f.BPP) - 1)\<close> does not
  round: the row \<^verbatim>\<open>50\<close> starts with the samples 2 and 4, which are stored as 72 and 145,
  while \<open>2 * 255 / 7\<close> rounds to 73.
\<close>

theorem depth_3_is_not_rounded:
  "(case Parse ''SIZE 8 75 75 3\<newline>CHARS 1\<newline>STARTCHAR A\<newline>ENCODING 65\<newline>BBX 2 1 0 0\<newline>BITMAP\<newline>50\<newline>ENDCHAR\<newline>'' of
      Return f \<Rightarrow> BPP f = 3 \<and> map (map_option Pix \<circ> Alpha) (Characters f) = [Some [72, 145]]
    | Fail e \<Rightarrow> False
    | Panic p \<Rightarrow> False)
   \<and> sample_value [0x50] 0 3 = 2
   \<and> round (real 2 * 255 / (2 ^ 3 - 1)) = 73"
proof -
  have "case Parse ''SIZE 8 75 75 3\<newline>CHARS 1\<newline>STARTCHAR A\<newline>ENCODING 65\<newline>BBX 2 1 0 0\<newline>BITMAP\<newline>50\<newline>ENDCHAR\<newline>'' of
      Return f \<Rightarrow> BPP f = 3 \<and> map (map_option Pix \<circ> Alpha) (Characters f) = [Some [72, 145]]
    | Fail e \<Rightarrow> False
    | Panic p \<Rightarrow> False"
    by code_simp
  moreover have "sample_value [0x50] 0 3 = 2"
    by code_simp
  moreover have "round (real 2 * 255 / (2 ^ 3 - 1)) = 73"
    by (simp add: round_def)
  ultimately show ?thesis by (intro conjI)
qed

subsection \<open>C4: the default code point\<close>

text \<open>
  C4 does not hold of the code. \<^verbatim>\<open>Parse\<close> initialises \<^verbatim>\<open>DefaultChar\<close> with 32, but
  \<^verbatim>\<open>parseGlobalsAndProperties\<close> always overwrites it with the code point of its local
  \<^verbatim>\<open>defaultChar\<close>, which starts at 0: for every source without a \<^verbatim>\<open>DEFAULT_CHAR\<close> line
  that parses, the default code point of the Font is 0 and not 32.
\<close>

theorem no_DEFAULT_CHAR_gives_zero:
  assumes "Parse data = Return f"
    and "\<forall>x\<in>set (ScanLines data). keyword x \<noteq> ''DEFAULT_CHAR''"
  shows "DefaultChar f = 0"
  using no_DEFAULT_CHAR_lines [of "ScanLines data" f] assms
  by (simp add: Parse_def)

theorem no_DEFAULT_CHAR_gives_zero_witness:
  "(\<exists>f. Parse ''CHARS 1\<newline>STARTCHAR space\<newline>ENCODING 32\<newline>ENDCHAR\<newline>'' = Return f
        \<and> DefaultChar f = 0 \<and> CharMap f 32 = Some 0 \<and> lookup f 65 = None)
   \<and> list_all (\<lambda>x. keyword x \<noteq> ''DEFAULT_CHAR'')
        (ScanLines ''CHARS 1\<newline>STARTCHAR space\<newline>ENCODING 32\<newline>ENDCHAR\<newline>'')"
proof -
  have "case Parse ''CHARS 1\<newline>STARTCHAR space\<newline>ENCODING 32\<newline>ENDCHAR\<newline>'' of
          Return f \<Rightarrow> CharMap f 32 = Some 0 \<and> lookup f 65 = None
        | Fail e \<Rightarrow> False | Panic p \<Rightarrow> False"
    by code_simp
  then obtain f where
    f: "Parse ''CHARS 1\<newline>STARTCHAR space\<newline>ENCODING 32\<newline>ENDCHAR\<newline>'' = Return f"
    and g: "CharMap f 32 = Some 0 \<and> lookup f 65 = None"
    by (rule Return_caseE)
  have h: "\<forall>x\<in>set (ScanLines ''CHARS 1\<newline>STARTCHAR space\<newline>ENCODING 32\<newline>ENDCHAR\<newline>'').
         keyword x \<noteq> ''DEFAULT_CHAR''"
    by code_simp
  from no_DEFAULT_CHAR_gives_zero [OF f h] have "DefaultChar f = 0" .
  with f g h show ?thesis
    by (auto simp: list_all_iff)
qed

subsection \<open>C5: charmap resolution\<close>




subsection \<open>C6: malformed lines\<close>




text \<open>
  The case \<^verbatim>\<open>PIXEL_SIZE\<close> is the only one that assigns \<^verbatim>\<open>err\<close> and does not test it, while
  every other case returns it: the error of a \<^verbatim>\<open>PIXEL_SIZE\<close> that is no integer is lost,
  and \<^verbatim>\<open>Parse\<close> returns a Font with the pixel size 0.
\<close>

theorem PIXEL_SIZE_error_is_dropped:
  "(case Parse ''PIXEL_SIZE abc\<newline>CHARS 0\<newline>'' of
      Return f \<Rightarrow> PixelSize f = 0
    | Fail e \<Rightarrow> False
    | Panic p \<Rightarrow> False)"
  by code_simp

subsection \<open>C7: end of input inside a glyph block\<close>

text \<open>
  C7, as the code has it. The end of the input is never an error: \<^verbatim>\<open>Parse\<close> has no
  \<^verbatim>\<open>UnterminatedGlyph\<close> check and returns the Font built so far when the scanner is
  exhausted, also between \<^verbatim>\<open>STARTCHAR\<close> and \<^verbatim>\<open>ENDCHAR\<close> and in bitmap mode. So a source that
  parses still parses when it is cut after any of its lines, for instance before its
  last \<^verbatim>\<open>ENDCHAR\<close>.
\<close>

theorem truncated_source_still_parses:
  assumes "Parse data = Return f"
    and "ScanLines data = ScanLines data' @ post"
  shows "\<exists>f'. Parse data' = Return f'"
  using truncated_lines [of "ScanLines data'" post f] assms
  by (simp add: Parse_def)

theorem truncated_source_still_parses_witness:
  "(\<exists>f. Parse ''CHARS 1\<newline>STARTCHAR A\<newline>ENCODING 65\<newline>DWIDTH 8 0\<newline>BBX 8 1 0 0\<newline>BITMAP\<newline>FF\<newline>ENDCHAR\<newline>'' = Return f)
   \<and> ScanLines ''CHARS 1\<newline>STARTCHAR A\<newline>ENCODING 65\<newline>DWIDTH 8 0\<newline>BBX 8 1 0 0\<newline>BITMAP\<newline>FF\<newline>ENDCHAR\<newline>''
       = ScanLines ''CHARS 1\<newline>STARTCHAR A\<newline>ENCODING 65\<newline>DWIDTH 8 0\<newline>BBX 8 1 0 0\<newline>BITMAP\<newline>FF\<newline>'' @ [''ENDCHAR'']
   \<and> (\<exists>f'. Parse ''CHARS 1\<newline>STARTCHAR A\<newline>ENCODING 65\<newline>DWIDTH 8 0\<newline>BBX 8 1 0 0\<newline>BITMAP\<newline>FF\<newline>'' = Return f')"
proof -
  have "case Parse ''CHARS 1\<newline>STARTCHAR A\<newline>ENCODING 65\<newline>DWIDTH 8 0\<newline>BBX 8 1 0 0\<newline>BITMAP\<newline>FF\<newline>ENDCHAR\<newline>'' of
          Return f \<Rightarrow> True | Fail e \<Rightarrow> False | Panic p \<Rightarrow> False"
    by code_simp
  then obtain f where
    f: "Parse ''CHARS 1\<newline>STARTCHAR A\<newline>ENCODING 65\<newline>DWIDTH 8 0\<newline>BBX 8 1 0 0\<newline>BITMAP\<newline>FF\<newline>ENDCHAR\<newline>'' = Return f"
    by (rule Return_caseE)
  have h: "ScanLines ''CHARS 1\<newline>STARTCHAR A\<newline>ENCODING 65\<newline>DWIDTH 8 0\<newline>BBX 8 1 0 0\<newline>BITMAP\<newline>FF\<newline>ENDCHAR\<newline>''
       = ScanLines ''CHARS 1\<newline>STARTCHAR A\<newline>ENCODING 65\<newline>DWIDTH 8 0\<newline>BBX 8 1 0 0\<newline>BITMAP\<newline>FF\<newline>'' @ [''ENDCHAR'']"
    by code_simp
  from f have "\<exists>f. Parse ''CHARS 1\<newline>STARTCHAR A\<newline>ENCODING 65\<newline>DWIDTH 8 0\<newline>BBX 8 1 0 0\<newline>BITMAP\<newline>FF\<newline>ENDCHAR\<newline>'' = Return f"
    by (rule exI)
  with truncated_source_still_parses [OF f h] h show ?thesis
    by (intro conjI)
qed

text \<open>
  A source that ends in bitmap mode, after one row of a glyph of height 2 and without
  \<^verbatim>\<open>ENDCHAR\<close>: \<^verbatim>\<open>Parse\<close> returns the Font, with the glyph registered and its second row
  still zero.
\<close>

theorem unterminated_glyph_returns_Font:
  "(case Parse ''CHARS 1\<newline>STARTCHAR A\<newline>ENCODING 65\<newline>DWIDTH 8 0\<newline>BBX 2 2 0 0\<newline>BITMAP\<newline>C0\<newline>'' of
      Return f \<Rightarrow>
        CharMap f 65 = Some 0 \<and> map Name (Characters f) = [''A''] \<and>
        map (map_option Pix \<circ> Alpha) (Characters f) = [Some [255, 255, 0, 0]]
    | Fail e \<Rightarrow> False
    | Panic p \<Rightarrow> False)"
  by code_simp

subsection \<open>C8: two glyphs with one code point\<close>



subsection \<open>C9: GlyphBounds\<close>

text \<open>
  C9, as the code has it. On a miss (\<^verbatim>\<open>lookup\<close> returns nil) \<^verbatim>\<open>GlyphBounds\<close> returns the
  rectangle \<^verbatim>\<open>fixed.R(0, -Ascent, 0, Descent)\<close> of width zero, the advance 0 and
  \<^verbatim>\<open>false\<close>. On a hit whose glyph has a raster it returns the rectangle from the
  horizontal origin offset \<^verbatim>\<open>LowerPoint[0]\<close> to that offset plus the width of the raster,
  between \<^verbatim>\<open>-Ascent\<close> and \<^verbatim>\<open>Descent\<close>, the horizontal advance in 26.6 fixed point and
  \<^verbatim>\<open>true\<close>.
\<close>

theorem GlyphBounds_hit_miss:
  "(lookup f r = None \<longrightarrow>
      GlyphBounds f r = Return (fixed_R 0 (wrap64 (- Ascent f)) 0 (Descent f), 0, False)
      \<and> MinX (fixed_R 0 (wrap64 (- Ascent f)) 0 (Descent f)) = 0
      \<and> MaxX (fixed_R 0 (wrap64 (- Ascent f)) 0 (Descent f)) = 0)
   \<and> (lookup f r = Some p \<longrightarrow> Alpha (Characters f ! p) = Some a \<longrightarrow>
      GlyphBounds f r =
        Return (fixed_R (fst (LowerPoint (Characters f ! p))) (wrap64 (- Ascent f))
                  (wrap64 (fst (LowerPoint (Characters f ! p)) + Dx (Rect a))) (Descent f),
                fixed_I (fst (Advance (Characters f ! p))), True))"
proof -
  have "MinX (fixed_R 0 y0 0 y1) = 0 \<and> MaxX (fixed_R 0 y0 0 y1) = 0" for y0 y1
    by (simp add: fixed_R_def fixed_I_def)
  then show ?thesis
    by (simp add: GlyphBounds_def Let_def)
qed

theorem GlyphBounds_hit_miss_witness:
  "\<exists>f. Parse ''FONT_ASCENT 7\<newline>FONT_DESCENT 1\<newline>CHARS 1\<newline>STARTCHAR A\<newline>ENCODING 65\<newline>DWIDTH 8 0\<newline>BBX 6 1 1 0\<newline>BITMAP\<newline>FC\<newline>ENDCHAR\<newline>''
        = Return f
      \<and> lookup f 66 = None
      \<and> GlyphBounds f 66
          = Return (\<lparr>MinX = 0, MinY = - 448, MaxX = 0, MaxY = 64\<rparr>, 0, False)
      \<and> lookup f 65 = Some 0
      \<and> GlyphBounds f 65
          = Return (\<lparr>MinX = 64, MinY = - 448, MaxX = 448, MaxY = 64\<rparr>, 512, True)"
proof -
  have "case Parse ''FONT_ASCENT 7\<newline>FONT_DESCENT 1\<newline>CHARS 1\<newline>STARTCHAR A\<newline>ENCODING 65\<newline>DWIDTH 8 0\<newline>BBX 6 1 1 0\<newline>BITMAP\<newline>FC\<newline>ENDCHAR\<newline>'' of
          Return f \<Rightarrow>
            lookup f 66 = None \<and> lookup f 65 = Some 0 \<and> Ascent f = 7 \<and> Descent f = 1 \<and>
            Alpha (Characters f ! 0) =
              Some \<lparr>Pix = [255, 255, 255, 255, 255, 255], Stride = 6,
                    Rect = \<lparr>RMin = \<lparr>X = 0, Y = 0\<rparr>, RMax = \<lparr>X = 6, Y = 1\<rparr>\<rparr>\<rparr> \<and>
            LowerPoint (Characters f ! 0) = (1, 0) \<and> Advance (Characters f ! 0) = (8, 0)
        | Fail e \<Rightarrow> False | Panic p \<Rightarrow> False"
    by code_simp
  then obtain f where
    f: "Parse ''FONT_ASCENT 7\<newline>FONT_DESCENT 1\<newline>CHARS 1\<newline>STARTCHAR A\<newline>ENCODING 65\<newline>DWIDTH 8 0\<newline>BBX 6 1 1 0\<newline>BITMAP\<newline>FC\<newline>ENDCHAR\<newline>''
        = Return f"
    and miss: "lookup f 66 = None" and hit: "lookup f 65 = Some 0"
    and m: "Ascent f = 7" "Descent f = 1"
    and a: "Alpha (Characters f ! 0) =
              Some \<lparr>Pix = [255, 255, 255, 255, 255, 255], Stride = 6,
                    Rect = \<lparr>RMin = \<lparr>X = 0, Y = 0\<rparr>, RMax = \<lparr>X = 6, Y = 1\<rparr>\<rparr>\<rparr>"
    and c: "LowerPoint (Characters f ! 0) = (1, 0)" "Advance (Characters f ! 0) = (8, 0)"
    by (rule Return_caseE) simp
  have d: "Dx \<lparr>RMin = \<lparr>X = 0, Y = 0\<rparr>, RMax = \<lparr>X = 6, Y = 1\<rparr>\<rparr> = 6"
    by (simp add: Dx_def wrap64_def signed_take_bit_int_eq_self)
  have r: "fixed_R 0 (wrap64 (- 7)) 0 1 = \<lparr>MinX = 0, MinY = - 448, MaxX = 0, MaxY = 64\<rparr>"
    "fixed_R 1 (wrap64 (- 7)) (wrap64 (1 + 6)) 1
       = \<lparr>MinX = 64, MinY = - 448, MaxX = 448, MaxY = 64\<rparr>"
    "fixed_I 8 = 512"
    by (simp_all add: fixed_R_def fixed_I_def wrap64_def signed_take_bit_int_eq_self)
  from GlyphBounds_hit_miss [of f 66] miss m r
  have "GlyphBounds f 66 = Return (\<lparr>MinX = 0, MinY = - 448, MaxX = 0, MaxY = 64\<rparr>, 0, False)"
    by simp
  moreover from GlyphBounds_hit_miss [of f 65 0] hit a m c d r
  have "GlyphBounds f 65
          = Return (\<lparr>MinX = 64, MinY = - 448, MaxX = 448, MaxY = 64\<rparr>, 512, True)"
    by simp
  ultimately show ?thesis
    using f miss hit by (intro exI [of _ f] conjI)
qed

text \<open>
  A glyph block without \<^verbatim>\<open>BBX\<close> leaves \<^verbatim>\<open>Alpha\<close> nil while \<^verbatim>\<open>ENCODING\<close> registers the
  glyph: \<^verbatim>\<open>GlyphBounds\<close> finds it and panics on \<^verbatim>\<open>c.Alpha.Rect\<close>.
\<close>

theorem GlyphBounds_without_raster_panics:
  "(case Parse ''CHARS 1\<newline>STARTCHAR A\<newline>ENCODING 65\<newline>DWIDTH 8 0\<newline>ENDCHAR\<newline>'' of
      Return f \<Rightarrow> lookup f 65 = Some 0 \<and> GlyphBounds f 65 = Panic NilDereference
    | Fail e \<Rightarrow> False
    | Panic p \<Rightarrow> False)"
  by code_simp

subsection \<open>C10: the low byte of a code\<close>



end
